theory Spec2Isabelle
  imports Complex_Main "HOL-Library.AList" "HOL-Library.Log_Nat"
begin

section \<open>JavaScript values\<close>

text \<open>
  The service \<^verbatim>\<open>src/services/psxService.ts\<close> computes with JavaScript numbers, which
  are IEEE 754 binary64 doubles. A finite number is modelled by its exact rational
  value; \<open>NaN\<close> and the two infinities are values of their own. Every arithmetic
  operation rounds its exact result to the nearest double, ties to even, as the
  language prescribes. The one simplification is that \<open>-0\<close> is identified with \<open>0\<close>;
  the two are equal under \<^verbatim>\<open>===\<close> and the code never divides by a price.
\<close>

datatype number = NaN | PInf | NInf | Fin rat

definition signed_inf :: "int \<Rightarrow> number" where
  "signed_inf s = (if s < 0 then NInf else PInf)"

subsection \<open>Rounding to a double\<close>

definition pow2 :: "int \<Rightarrow> rat" where
  "pow2 e = (if 0 \<le> e then of_int (2 ^ nat e) else 1 / of_int (2 ^ nat (- e)))"

text \<open>The binary exponent of a rational \<open>x \<noteq> 0\<close>: the \<open>e\<close> with
  \<open>2^e \<le> |x| < 2^(e+1)\<close>, found from the bit lengths of numerator and denominator.\<close>

definition expo :: "rat \<Rightarrow> int" where
  "expo x =
     (let (a, b) = quotient_of \<bar>x\<bar>; e = bitlen a - bitlen b
      in if pow2 e \<le> \<bar>x\<bar> then e else e - 1)"

definition roundHalfEven :: "rat \<Rightarrow> int" where
  "roundHalfEven x =
     (let f = \<lfloor>x\<rfloor>; d = x - of_int f
      in if d < 1 / 2 then f else if 1 / 2 < d then f + 1 else if even f then f else f + 1)"

text \<open>The spacing of the doubles around \<open>x\<close>: a significand of 53 bits, and the fixed
  spacing \<open>2^-1074\<close> of the subnormal range below \<open>2^-1022\<close>.\<close>

definition quantum :: "rat \<Rightarrow> rat" where
  "quantum x = pow2 (max (expo x) (- 1022) - 52)"

text \<open>The Number value for \<open>x\<close>: the nearest multiple of the spacing, the one with the
  even significand on a tie, and an infinity when that reaches \<open>2^1024\<close>.\<close>

definition roundDouble :: "rat \<Rightarrow> number" where
  "roundDouble x =
     (if x = 0 then Fin 0
      else
        let y = of_int (roundHalfEven (x / quantum x)) * quantum x
        in if 1024 \<le> expo y then signed_inf (if x < 0 then - 1 else 1) else Fin y)"

subsection \<open>Arithmetic and comparison\<close>

fun js_add :: "number \<Rightarrow> number \<Rightarrow> number" where
  "js_add NaN _ = NaN"
| "js_add _ NaN = NaN"
| "js_add PInf NInf = NaN"
| "js_add NInf PInf = NaN"
| "js_add PInf _ = PInf"
| "js_add _ PInf = PInf"
| "js_add NInf _ = NInf"
| "js_add _ NInf = NInf"
| "js_add (Fin a) (Fin b) = roundDouble (a + b)"

fun js_neg :: "number \<Rightarrow> number" where
  "js_neg NaN = NaN"
| "js_neg PInf = NInf"
| "js_neg NInf = PInf"
| "js_neg (Fin a) = Fin (- a)"

definition js_sub :: "number \<Rightarrow> number \<Rightarrow> number" where
  "js_sub x y = js_add x (js_neg y)"

text \<open>The sign of a number that is not \<open>NaN\<close>: \<open>-1\<close>, \<open>0\<close> or \<open>1\<close>.\<close>

fun js_sign :: "number \<Rightarrow> int" where
  "js_sign NaN = 0"
| "js_sign PInf = 1"
| "js_sign NInf = -1"
| "js_sign (Fin a) = (if a < 0 then -1 else if a = 0 then 0 else 1)"

fun js_mul :: "number \<Rightarrow> number \<Rightarrow> number" where
  "js_mul NaN _ = NaN"
| "js_mul _ NaN = NaN"
| "js_mul (Fin a) (Fin b) = roundDouble (a * b)"
| "js_mul x y =
     (if js_sign x = 0 \<or> js_sign y = 0 then NaN else signed_inf (js_sign x * js_sign y))"

fun js_div :: "number \<Rightarrow> number \<Rightarrow> number" where
  "js_div NaN _ = NaN"
| "js_div _ NaN = NaN"
| "js_div (Fin a) (Fin b) =
     (if b \<noteq> 0 then roundDouble (a / b)
      else if a = 0 then NaN
      else signed_inf (js_sign (Fin a)))"
| "js_div (Fin a) _ = Fin 0"
| "js_div x (Fin b) = signed_inf (js_sign x * (if b < 0 then -1 else 1))"
| "js_div _ _ = NaN"

fun js_lt :: "number \<Rightarrow> number \<Rightarrow> bool" where
  "js_lt NaN _ = False"
| "js_lt _ NaN = False"
| "js_lt PInf _ = False"
| "js_lt _ NInf = False"
| "js_lt NInf _ = True"
| "js_lt _ PInf = True"
| "js_lt (Fin a) (Fin b) = (a < b)"

definition js_gt :: "number \<Rightarrow> number \<Rightarrow> bool" where
  "js_gt x y = js_lt y x"

text \<open>Strict equality \<^verbatim>\<open>===\<close> on numbers: \<open>NaN\<close> equals nothing, itself included.\<close>

definition js_seq :: "number \<Rightarrow> number \<Rightarrow> bool" where
  "js_seq x y = (x \<noteq> NaN \<and> x = y)"

definition js_ge :: "number \<Rightarrow> number \<Rightarrow> bool" where
  "js_ge x y = (js_gt x y \<or> js_seq x y)"

text \<open>\<^verbatim>\<open>Math.max(x, y)\<close>: \<open>NaN\<close> when either argument is.\<close>

fun mathMax :: "number \<Rightarrow> number \<Rightarrow> number" where
  "mathMax NaN _ = NaN"
| "mathMax _ NaN = NaN"
| "mathMax x y = (if js_lt x y then y else x)"

text \<open>\<^verbatim>\<open>x || 0\<close> on a number: \<open>NaN\<close> and \<open>0\<close> are falsy.\<close>

definition orZero :: "number \<Rightarrow> number" where
  "orZero x = (if x = NaN \<or> x = Fin 0 then Fin 0 else x)"

text \<open>The value of a finite number; it is used only where the number is known to be
  finite.\<close>

definition finValue :: "number \<Rightarrow> rat" where
  "finValue x = (case x of Fin q \<Rightarrow> q | _ \<Rightarrow> 0)"

text \<open>\<^verbatim>\<open>Math.floor\<close> of a finite number, as an integer.\<close>

definition mathFloor :: "number \<Rightarrow> int" where
  "mathFloor x = \<lfloor>finValue x\<rfloor>"

text \<open>
  \<^verbatim>\<open>parseFloat(x.toFixed(2))\<close>. \<open>toFixed(2)\<close> prints the integer \<open>n\<close> for which
  \<open>n / 100\<close> is closest to the exact value of \<open>|x|\<close>, the larger one on a tie, with two
  digits after the point, and keeps the sign; from \<open>10^21\<close> on it prints the number
  itself. \<^verbatim>\<open>parseFloat\<close> reads the decimal string back as the nearest double.
\<close>

definition roundCents :: "rat \<Rightarrow> rat" where
  "roundCents q = (if q < 0 then - 1 else 1) * of_int \<lfloor>\<bar>q\<bar> * 100 + 1 / 2\<rfloor> / 100"

fun toFixed2 :: "number \<Rightarrow> number" where
  "toFixed2 (Fin q) = (if 10 ^ 21 \<le> \<bar>q\<bar> then roundDouble q else roundDouble (roundCents q))"
| "toFixed2 x = x"

subsection \<open>Strings read as numbers\<close>

text \<open>
  Strings are byte strings, so white space is the ASCII white space of the language
  (tab, line feed, vertical tab, form feed, carriage return, space).
\<close>

definition isWhite :: "char \<Rightarrow> bool" where
  "isWhite c = (c \<in> set [CHR 0x09, CHR 0x0A, CHR 0x0B, CHR 0x0C, CHR 0x0D, CHR '' ''])"

definition trimStart :: "string \<Rightarrow> string" where
  "trimStart s = dropWhile isWhite s"

definition trim :: "string \<Rightarrow> string" where
  "trim s = rev (dropWhile isWhite (rev (dropWhile isWhite s)))"

definition digitTable :: "(char \<times> int) list" where
  "digitTable =
     [(CHR ''0'', 0), (CHR ''1'', 1), (CHR ''2'', 2), (CHR ''3'', 3), (CHR ''4'', 4),
      (CHR ''5'', 5), (CHR ''6'', 6), (CHR ''7'', 7), (CHR ''8'', 8), (CHR ''9'', 9),
      (CHR ''a'', 10), (CHR ''b'', 11), (CHR ''c'', 12), (CHR ''d'', 13), (CHR ''e'', 14),
      (CHR ''f'', 15), (CHR ''A'', 10), (CHR ''B'', 11), (CHR ''C'', 12), (CHR ''D'', 13),
      (CHR ''E'', 14), (CHR ''F'', 15)]"

definition digitOf :: "int \<Rightarrow> char \<Rightarrow> int option" where
  "digitOf R c =
     (case map_of digitTable c of
        None \<Rightarrow> None
      | Some v \<Rightarrow> if v < R then Some v else None)"

definition isDigitOf :: "int \<Rightarrow> char \<Rightarrow> bool" where
  "isDigitOf R c = (digitOf R c \<noteq> None)"

definition digitsValue :: "int \<Rightarrow> string \<Rightarrow> int" where
  "digitsValue R ds = foldl (\<lambda>a c. R * a + (case digitOf R c of Some v \<Rightarrow> v | None \<Rightarrow> 0)) 0 ds"

definition pow10 :: "int \<Rightarrow> rat" where
  "pow10 e = (if 0 \<le> e then 10 ^ nat e else 1 / 10 ^ nat (- e))"

text \<open>An optional sign: the factor it stands for and the rest of the string.\<close>

fun takeSign :: "string \<Rightarrow> int \<times> string" where
  "takeSign [] = (1, [])"
| "takeSign (c # r) =
     (if c = CHR ''-'' then (-1, r) else if c = CHR ''+'' then (1, r) else (1, c # r))"

text \<open>
  An exponent part at the head of the string: \<open>e\<close> or \<open>E\<close>, an optional sign and at
  least one digit. Without one the exponent is \<open>0\<close> and nothing is consumed.
\<close>

fun exponentPart :: "string \<Rightarrow> int \<times> string" where
  "exponentPart [] = (0, [])"
| "exponentPart (c # r) =
     (if c = CHR ''e'' \<or> c = CHR ''E'' then
        (let (sg, r1) = takeSign r; ds = takeWhile (isDigitOf 10) r1
         in if ds = [] then (0, c # r)
            else (sg * digitsValue 10 ds, dropWhile (isDigitOf 10) r1))
      else (0, c # r))"

text \<open>
  The longest prefix of the string that is a signed decimal literal
  (\<open>Infinity\<close>, \<open>12\<close>, \<open>12.\<close>, \<open>12.5\<close>, \<open>.5\<close>, each but the first with an optional
  exponent): the double nearest its value and what follows it, or \<open>None\<close> when no
  prefix is one.
\<close>

definition strDecimalLiteral :: "string \<Rightarrow> (number \<times> string) option" where
  "strDecimalLiteral s =
     (let (sg, s1) = takeSign s in
      if take 8 s1 = ''Infinity'' then Some (signed_inf sg, drop 8 s1)
      else
        let ip = takeWhile (isDigitOf 10) s1;
            s2 = dropWhile (isDigitOf 10) s1;
            dot = (case s2 of [] \<Rightarrow> False | c # _ \<Rightarrow> c = CHR ''.'');
            fp = (if dot then takeWhile (isDigitOf 10) (tl s2) else []);
            s3 = (if dot then dropWhile (isDigitOf 10) (tl s2) else s2)
        in if ip = [] \<and> fp = [] then None
           else
             let (e, s4) = exponentPart s3;
                 m = of_int (digitsValue 10 ip) + of_int (digitsValue 10 fp) / 10 ^ length fp
             in Some (roundDouble (of_int sg * m * pow10 e), s4))"

text \<open>
  The values a field of the payload holds: \<^verbatim>\<open>null\<close>, a boolean, a number or a string.
  \<open>JNum q\<close> is the number written in the payload by a literal of exact value \<open>q\<close>,
  which \<^verbatim>\<open>JSON.parse\<close> reads as the double nearest \<open>q\<close>. Fields that are themselves
  arrays or objects are outside the model.
\<close>

datatype jsval = JNull | JBool bool | JNum rat | JStr string

text \<open>\<^verbatim>\<open>parseFloat(v)\<close>: the value is turned into a string and its longest decimal prefix,
  after leading white space, is read. A number prints and reads back as itself;
  \<^verbatim>\<open>null\<close>, \<^verbatim>\<open>true\<close> and \<^verbatim>\<open>false\<close> print as words, which read as \<open>NaN\<close>.\<close>

fun parseFloat :: "jsval \<Rightarrow> number" where
  "parseFloat (JStr s) =
     (case strDecimalLiteral (trimStart s) of None \<Rightarrow> NaN | Some (v, _) \<Rightarrow> v)"
| "parseFloat (JNum q) = roundDouble q"
| "parseFloat _ = NaN"

text \<open>
  \<^verbatim>\<open>parseInt(v)\<close> with no radix, \<open>None\<close> standing for \<open>NaN\<close>: leading white space, an
  optional sign, an optional \<^verbatim>\<open>0x\<close> that switches to radix 16, then the digits up to
  the first character that is not one.
\<close>

definition parseIntString :: "string \<Rightarrow> int option" where
  "parseIntString s =
     (let (sg, s1) = takeSign (trimStart s);
          hex = (take 2 s1 = ''0x'' \<or> take 2 s1 = ''0X'');
          R = (if hex then 16 else 10);
          s2 = (if hex then drop 2 s1 else s1);
          ds = takeWhile (isDigitOf R) s2
      in if ds = [] then None else Some (sg * digitsValue R ds))"

text \<open>The first significant decimal digit of a positive integer, and of a positive
  fraction \<open>a / b\<close> below one.\<close>

function leadDigitInt :: "int \<Rightarrow> int" where
  "leadDigitInt n = (if n < 10 then n else leadDigitInt (n div 10))"
  by pat_completeness auto
termination
  by (relation "measure nat") auto

function leadDigitFrac :: "int \<Rightarrow> int \<Rightarrow> int" where
  "leadDigitFrac a b = (if a \<le> 0 \<or> b \<le> a then a div b else leadDigitFrac (10 * a) b)"
  by pat_completeness auto
termination
  by (relation "measure (\<lambda>(a, b). nat (b - a))") auto

text \<open>
  A number given to \<^verbatim>\<open>parseInt\<close> is printed first. From \<open>10^-6\<close> up to \<open>10^21\<close> it
  prints in plain decimal notation and \<^verbatim>\<open>parseInt\<close> reads its integer part; outside it
  prints in exponent notation (\<^verbatim>\<open>5e-7\<close>, \<^verbatim>\<open>1.5e+21\<close>) and \<^verbatim>\<open>parseInt\<close> reads the one
  digit before the point, taken here to be the first significant digit of the exact
  value. An infinity prints as \<^verbatim>\<open>Infinity\<close>, which reads as \<open>NaN\<close>.
\<close>

definition parseIntNumber :: "rat \<Rightarrow> int option" where
  "parseIntNumber q =
     (let sg = (if q < 0 then -1 else 1); (a, b) = quotient_of \<bar>q\<bar> in
      if q = 0 then Some 0
      else if 10 ^ 21 \<le> \<bar>q\<bar> then Some (sg * leadDigitInt (a div b))
      else if \<bar>q\<bar> < 1 / 10 ^ 6 then Some (sg * leadDigitFrac a b)
      else Some (sg * (a div b)))"

fun parseInt :: "jsval \<Rightarrow> int option" where
  "parseInt (JStr s) = parseIntString s"
| "parseInt (JNum q) = (case roundDouble q of Fin d \<Rightarrow> parseIntNumber d | _ \<Rightarrow> None)"
| "parseInt _ = None"

text \<open>
  \<^verbatim>\<open>ToNumber\<close> on a string, used when a string meets \<^verbatim>\<open>*\<close>: white space is trimmed at
  both ends, the empty string is \<open>0\<close>, \<^verbatim>\<open>0x\<close>, \<^verbatim>\<open>0o\<close> and \<^verbatim>\<open>0b\<close> introduce unsigned
  integers of radix 16, 8 and 2, and anything else must be a decimal literal as a whole.
\<close>

definition radixLiteral :: "int \<Rightarrow> string \<Rightarrow> number" where
  "radixLiteral R ds =
     (if ds \<noteq> [] \<and> list_all (isDigitOf R) ds then roundDouble (of_int (digitsValue R ds))
      else NaN)"

definition stringToNumber :: "string \<Rightarrow> number" where
  "stringToNumber s =
     (let t = trim s in
      if t = [] then Fin 0
      else if take 2 t = ''0x'' \<or> take 2 t = ''0X'' then radixLiteral 16 (drop 2 t)
      else if take 2 t = ''0o'' \<or> take 2 t = ''0O'' then radixLiteral 8 (drop 2 t)
      else if take 2 t = ''0b'' \<or> take 2 t = ''0B'' then radixLiteral 2 (drop 2 t)
      else (case strDecimalLiteral t of
              None \<Rightarrow> NaN
            | Some (v, r) \<Rightarrow> if r = [] then v else NaN))"

fun toNumber :: "jsval \<Rightarrow> number" where
  "toNumber JNull = Fin 0"
| "toNumber (JBool b) = Fin (if b then 1 else 0)"
| "toNumber (JNum q) = roundDouble q"
| "toNumber (JStr s) = stringToNumber s"

section \<open>Dates\<close>

text \<open>
  A \<^verbatim>\<open>Date\<close> holds a time value, the milliseconds since the epoch as an integer of
  magnitude at most \<open>8.64 * 10^15\<close>, or is invalid (\<open>None\<close>). Calling
  \<^verbatim>\<open>toISOString\<close> on an invalid date throws a \<^verbatim>\<open>RangeError\<close>.
\<close>

datatype error = RangeError | TypeError

definition maxTime :: int where
  "maxTime = 8640000000000000"

definition truncToInt :: "rat \<Rightarrow> int" where
  "truncToInt q = (if q < 0 then - \<lfloor>- q\<rfloor> else \<lfloor>q\<rfloor>)"

definition timeClip :: "number \<Rightarrow> int option" where
  "timeClip x =
     (case x of
        Fin q \<Rightarrow> if of_int maxTime < \<bar>q\<bar> then None else Some (truncToInt q)
      | _ \<Rightarrow> None)"

text \<open>\<^verbatim>\<open>new Date(x)\<close> for a number \<open>x\<close>.\<close>

definition newDate :: "number \<Rightarrow> int option" where
  "newDate x = timeClip x"

definition msPerDay :: int where
  "msPerDay = 86400000"

text \<open>The civil date (year, month, day of the month) of a day number counted from
  1970-01-01, in the proleptic Gregorian calendar.\<close>

definition civilFromDays :: "int \<Rightarrow> int \<times> int \<times> int" where
  "civilFromDays dn =
     (let z = dn + 719468;
          era = z div 146097;
          doe = z mod 146097;
          yoe = (doe - doe div 1460 + doe div 36524 - doe div 146096) div 365;
          doy = doe - (365 * yoe + yoe div 4 - yoe div 100);
          mp = (5 * doy + 2) div 153;
          d = doy - (153 * mp + 2) div 5 + 1;
          m = (if mp < 10 then mp + 3 else mp - 9);
          y = yoe + era * 400 + (if m \<le> 2 then 1 else 0)
      in (y, m, d))"

definition digitChar :: "int \<Rightarrow> char" where
  "digitChar d = ''0123456789'' ! nat (d mod 10)"

definition pad2 :: "int \<Rightarrow> string" where
  "pad2 k = [digitChar (k div 10), digitChar k]"

definition pad3 :: "int \<Rightarrow> string" where
  "pad3 k = [digitChar (k div 100), digitChar (k div 10), digitChar k]"

definition pad4 :: "int \<Rightarrow> string" where
  "pad4 k = [digitChar (k div 1000), digitChar (k div 100), digitChar (k div 10), digitChar k]"

definition pad6 :: "int \<Rightarrow> string" where
  "pad6 k = [digitChar (k div 100000), digitChar (k div 10000)] @ pad4 k"

text \<open>Years 0 to 9999 print with four digits, the others with a sign and six.\<close>

definition yearString :: "int \<Rightarrow> string" where
  "yearString y =
     (if 0 \<le> y \<and> y \<le> 9999 then pad4 y
      else (if y < 0 then ''-'' else ''+'') @ pad6 \<bar>y\<bar>)"

definition dateString :: "int \<Rightarrow> string" where
  "dateString tv =
     (let (y, m, d) = civilFromDays (tv div msPerDay)
      in yearString y @ ''-'' @ pad2 m @ ''-'' @ pad2 d)"

definition timeString :: "int \<Rightarrow> string" where
  "timeString tv =
     (let t = tv mod msPerDay
      in pad2 (t div 3600000) @ '':'' @ pad2 (t div 60000 mod 60) @ '':'' @
         pad2 (t div 1000 mod 60) @ ''.'' @ pad3 (t mod 1000))"

definition toISOString :: "int option \<Rightarrow> error + string" where
  "toISOString date =
     (case date of
        None \<Rightarrow> Inl RangeError
      | Some tv \<Rightarrow> Inr (dateString tv @ ''T'' @ timeString tv @ ''Z''))"

text \<open>\<^verbatim>\<open>s.split('T')[0]\<close>: the part of the string before its first \<open>T\<close>.\<close>

definition splitT0 :: "string \<Rightarrow> string" where
  "splitT0 s = takeWhile (\<lambda>c. c \<noteq> CHR ''T'') s"

text \<open>
  \<^verbatim>\<open>getMinutes\<close>, \<^verbatim>\<open>setMinutes\<close>, \<^verbatim>\<open>getDate\<close> and \<^verbatim>\<open>setDate\<close> work in local time.
  The host's time zone is a parameter \<open>tz\<close> of the model: the offset of local time
  from UTC in milliseconds, taken to be the same at every instant.
  \<open>setMinutes tz tv m\<close> is \<^verbatim>\<open>setMinutes(m, 0, 0)\<close>: it keeps the local day and hour and
  clears seconds and milliseconds. \<open>setMinutesOnly tz tv m\<close> is \<^verbatim>\<open>setMinutes(m)\<close>, which
  keeps seconds and milliseconds too. \<^verbatim>\<open>setDate(d)\<close> moves to day \<open>d\<close> of the local month,
  counted on from the first, at the same time of day. Each result is invalid when it
  leaves the range of time values.
\<close>

definition getMinutes :: "int \<Rightarrow> int \<Rightarrow> int" where
  "getMinutes tz tv = (tv + tz) div 60000 mod 60"

definition setMinutes :: "int \<Rightarrow> int \<Rightarrow> int \<Rightarrow> int option" where
  "setMinutes tz tv m =
     (let local = tv + tz;
          newLocal = local - local mod 3600000 + m * 60000
      in timeClip (Fin (of_int (newLocal - tz))))"

definition setMinutesOnly :: "int \<Rightarrow> int \<Rightarrow> int \<Rightarrow> int option" where
  "setMinutesOnly tz tv m =
     (let local = tv + tz;
          newLocal = local - local div 60000 mod 60 * 60000 + m * 60000
      in timeClip (Fin (of_int (newLocal - tz))))"

definition getDate :: "int \<Rightarrow> int \<Rightarrow> int" where
  "getDate tz tv = (let (y, m, d) = civilFromDays ((tv + tz) div msPerDay) in d)"

definition setDate :: "int \<Rightarrow> int \<Rightarrow> int \<Rightarrow> int option" where
  "setDate tz tv d =
     (let local = tv + tz;
          newLocal = local + (d - getDate tz tv) * msPerDay
      in timeClip (Fin (of_int (newLocal - tz))))"

text \<open>\<^verbatim>\<open>getTime()\<close>: the time value, \<open>NaN\<close> for an invalid date.\<close>

definition getTime :: "int option \<Rightarrow> number" where
  "getTime date = (case date of None \<Rightarrow> NaN | Some tv \<Rightarrow> Fin (of_int tv))"

section \<open>The chart pipeline\<close>

datatype ChartTimeInterval = Min1 | Min5 | Min15 | Min30 | Hour1 | Day1

text \<open>
  A chart point. The volume is always an integer, since \<^verbatim>\<open>parseInt(..) || 0\<close> and
  \<^verbatim>\<open>Math.floor\<close> are its only producers; volumes are added exactly, as doubles are
  below \<open>2^53\<close>. The timestamp is finite, since every point has gone through
  \<^verbatim>\<open>toISOString\<close> when it was made.
\<close>

record ChartDataPoint =
  date :: string
  price :: number
  volume :: int
  timestamp :: rat

fun getDataLimitForInterval :: "ChartTimeInterval \<Rightarrow> int" where
  "getDataLimitForInterval Min1 = 390"
| "getDataLimitForInterval Min5 = 390"
| "getDataLimitForInterval Min15 = 390"
| "getDataLimitForInterval Min30 = 390"
| "getDataLimitForInterval Hour1 = 390"
| "getDataLimitForInterval Day1 = 30"

fun getIntervalMinutes :: "ChartTimeInterval \<Rightarrow> int" where
  "getIntervalMinutes Min1 = 1"
| "getIntervalMinutes Min5 = 5"
| "getIntervalMinutes Min15 = 15"
| "getIntervalMinutes Min30 = 30"
| "getIntervalMinutes Hour1 = 60"
| "getIntervalMinutes Day1 = 1440"

definition getIntervalKey :: "int \<Rightarrow> rat \<Rightarrow> ChartTimeInterval \<Rightarrow> int \<Rightarrow> error + string" where
  "getIntervalKey tz ts interval intervalMinutes =
     (case newDate (Fin ts) of
        None \<Rightarrow> Inl RangeError
      | Some tv \<Rightarrow>
          if interval = Day1 then map_sum id splitT0 (toISOString (Some tv))
          else
            let minutes = getMinutes tz tv;
                roundedMinutes = minutes div intervalMinutes * intervalMinutes
            in toISOString (setMinutes tz tv roundedMinutes))"

text \<open>The entries of \<^verbatim>\<open>aggregatedMap\<close>; the map itself is an association list in
  insertion order, which is the order \<^verbatim>\<open>Map.forEach\<close> visits.\<close>

record IntervalData =
  key :: string
  prices :: "number list"
  volumes :: "int list"
  ivTimestamp :: rat

definition addPoint ::
  "(string \<times> IntervalData) list \<Rightarrow> string \<Rightarrow> ChartDataPoint \<Rightarrow> (string \<times> IntervalData) list" where
  "addPoint aggregatedMap k point =
     (let b0 = (case map_of aggregatedMap k of
                  None \<Rightarrow> \<lparr>key = k, prices = [], volumes = [], ivTimestamp = timestamp point\<rparr>
                | Some b \<Rightarrow> b);
          b1 = b0\<lparr>prices := prices b0 @ [price point], volumes := volumes b0 @ [volume point]\<rparr>;
          b2 = (if timestamp point < ivTimestamp b1 then b1\<lparr>ivTimestamp := timestamp point\<rparr> else b1)
      in AList.update k b2 aggregatedMap)"

text \<open>The first loop of \<^verbatim>\<open>aggregateDataByInterval\<close>: group the points by key.\<close>

fun groupData ::
  "int \<Rightarrow> ChartTimeInterval \<Rightarrow> int \<Rightarrow> (string \<times> IntervalData) list \<Rightarrow> ChartDataPoint list
    \<Rightarrow> error + (string \<times> IntervalData) list" where
  "groupData tz interval im aggregatedMap [] = Inr aggregatedMap"
| "groupData tz interval im aggregatedMap (point # rest) =
     (case getIntervalKey tz (timestamp point) interval im of
        Inl e \<Rightarrow> Inl e
      | Inr k \<Rightarrow> groupData tz interval im (addPoint aggregatedMap k point) rest)"

text \<open>The body of the second loop: one chart point per entry.\<close>

definition toChartPoint :: "ChartTimeInterval \<Rightarrow> IntervalData \<Rightarrow> error + ChartDataPoint" where
  "toChartPoint interval intervalData =
     (let avgPrice = js_div (foldl js_add (Fin 0) (prices intervalData))
                            (Fin (of_nat (length (prices intervalData))));
          totalVolume = foldl (+) 0 (volumes intervalData)
      in case toISOString (newDate (Fin (ivTimestamp intervalData))) of
           Inl e \<Rightarrow> Inl e
         | Inr isoStr \<Rightarrow>
             Inr \<lparr>date = (if interval = Day1 then splitT0 isoStr else isoStr),
                  price = toFixed2 avgPrice,
                  volume = totalVolume,
                  timestamp = ivTimestamp intervalData\<rparr>)"

fun mapE :: "('a \<Rightarrow> error + 'b) \<Rightarrow> 'a list \<Rightarrow> error + 'b list" where
  "mapE f [] = Inr []"
| "mapE f (x # xs) =
     (case f x of
        Inl e \<Rightarrow> Inl e
      | Inr y \<Rightarrow> (case mapE f xs of Inl e \<Rightarrow> Inl e | Inr ys \<Rightarrow> Inr (y # ys)))"

text \<open>\<^verbatim>\<open>aggregateDataByInterval\<close> after its guard for the 1-minute interval: group,
  reduce each group to a point, sort by timestamp. \<^verbatim>\<open>Array.prototype.sort\<close> is stable.\<close>

definition aggregateBuckets ::
  "int \<Rightarrow> ChartDataPoint list \<Rightarrow> ChartTimeInterval \<Rightarrow> error + ChartDataPoint list" where
  "aggregateBuckets tz chartData interval =
     (let intervalMinutes = getIntervalMinutes interval
      in case groupData tz interval intervalMinutes [] chartData of
           Inl e \<Rightarrow> Inl e
         | Inr aggregatedMap \<Rightarrow>
             (case mapE (toChartPoint interval) (map snd aggregatedMap) of
                Inl e \<Rightarrow> Inl e
              | Inr aggregatedData \<Rightarrow> Inr (sort_key timestamp aggregatedData)))"

definition aggregateDataByInterval ::
  "int \<Rightarrow> ChartDataPoint list \<Rightarrow> ChartTimeInterval \<Rightarrow> error + ChartDataPoint list" where
  "aggregateDataByInterval tz chartData interval =
     (if interval = Min1 then Inr chartData else aggregateBuckets tz chartData interval)"

text \<open>\<^verbatim>\<open>xs.slice(start)\<close>: a negative start counts from the end.\<close>

definition slice :: "int \<Rightarrow> 'a list \<Rightarrow> 'a list" where
  "slice start xs =
     (let len = int (length xs);
          k = (if start < 0 then max (len + start) 0 else min start len)
      in drop (nat k) xs)"

text \<open>
  Lines 161 to 169 of \<^verbatim>\<open>parseJSONChartData\<close>: sort the points by timestamp, aggregate
  them, keep the last \<^verbatim>\<open>dataLimit\<close> ones.
\<close>

definition sortAggregateLimit ::
  "int \<Rightarrow> ChartDataPoint list \<Rightarrow> ChartTimeInterval \<Rightarrow> error + ChartDataPoint list" where
  "sortAggregateLimit tz chartData interval =
     (case aggregateDataByInterval tz (sort_key timestamp chartData) interval of
        Inl e \<Rightarrow> Inl e
      | Inr aggregatedData \<Rightarrow> Inr (slice (- getDataLimitForInterval interval) aggregatedData))"

text \<open>An element of the payload's \<^verbatim>\<open>data\<close> array: an array of fields, or anything else.\<close>

datatype item = NotArray | Arr "jsval list"

text \<open>The body of the loop over \<^verbatim>\<open>jsonData.data\<close>: the point pushed, if any. Where
  \<^verbatim>\<open>toISOString\<close> has not thrown, \<^verbatim>\<open>timestamp * 1000\<close> is a finite number.\<close>

fun parseItem :: "ChartTimeInterval \<Rightarrow> item \<Rightarrow> error + ChartDataPoint option" where
  "parseItem interval (Arr (f0 # f1 # f2 # others)) =
     (let price = orZero (parseFloat f1);
          volume = (case parseInt f2 of None \<Rightarrow> 0 | Some n \<Rightarrow> n);
          ms = js_mul (toNumber f0) (Fin 1000)
      in case toISOString (newDate ms) of
           Inl e \<Rightarrow> Inl e
         | Inr isoStr \<Rightarrow>
             Inr (Some \<lparr>date = (if interval = Day1 then splitT0 isoStr else isoStr),
                        price = price,
                        volume = volume,
                        timestamp = finValue ms\<rparr>))"
| "parseItem interval _ = Inr None"

fun parseItems :: "ChartTimeInterval \<Rightarrow> item list \<Rightarrow> error + ChartDataPoint list" where
  "parseItems interval [] = Inr []"
| "parseItems interval (x # xs) =
     (case parseItem interval x of
        Inl e \<Rightarrow> Inl e
      | Inr r \<Rightarrow>
          (case parseItems interval xs of
             Inl e \<Rightarrow> Inl e
           | Inr ps \<Rightarrow> Inr ((case r of None \<Rightarrow> [] | Some p \<Rightarrow> [p]) @ ps)))"

text \<open>
  \<^verbatim>\<open>generateMockChartData(interval)\<close>, the synthetic series. It reads the clock once,
  \<^verbatim>\<open>new Date()\<close>, whose time value is the parameter \<open>now\<close>, and calls
  \<^verbatim>\<open>Math.random()\<close> once before the loop and twice in each round; the parameter
  \<open>random\<close> gives the result of the \<open>k\<close>-th call, a double in \<open>[0, 1)\<close>. The loop
  \<^verbatim>\<open>for (let i = dataPoints; i >= 0; i--)\<close> is a recursion on \<open>i\<close> that carries
  \<^verbatim>\<open>basePrice\<close>, the number of calls made so far and \<^verbatim>\<open>data\<close>.
\<close>

function mockLoop ::
  "int \<Rightarrow> int \<Rightarrow> (nat \<Rightarrow> rat) \<Rightarrow> ChartTimeInterval \<Rightarrow> int \<Rightarrow> int \<Rightarrow> number \<Rightarrow> nat \<Rightarrow>
   ChartDataPoint list \<Rightarrow> error + ChartDataPoint list" where
  "mockLoop tz today random interval intervalMinutes i basePrice calls data =
     (if 0 \<le> i then
        let date = (if interval = Day1 then setDate tz today (getDate tz today - i)
                    else setMinutesOnly tz today (getMinutes tz today - i * intervalMinutes));
            volatility = roundDouble (3 / 100);
            change = js_mul (js_mul (js_sub (Fin (random calls)) (roundDouble (1 / 2))) volatility)
                       basePrice;
            price = mathMax (js_add basePrice change) (Fin 1);
            volume = mathFloor (js_mul (Fin (random (calls + 1))) (Fin 1000000))
        in case toISOString date of
             Inl e \<Rightarrow> Inl e
           | Inr isoStr \<Rightarrow>
               mockLoop tz today random interval intervalMinutes (i - 1) price (calls + 2)
                 (data @ [\<lparr>date = (if interval = Day1 then splitT0 isoStr else isoStr),
                           price = toFixed2 price,
                           volume = volume,
                           timestamp = finValue (getTime date)\<rparr>])
      else Inr data)"
  by pat_completeness auto
termination
  by (relation "measure (\<lambda>(tz, today, random, interval, intervalMinutes, i, basePrice, calls, data).
        nat (i + 1))") auto

definition generateMockChartData ::
  "int \<Rightarrow> int \<Rightarrow> (nat \<Rightarrow> rat) \<Rightarrow> ChartTimeInterval \<Rightarrow> error + ChartDataPoint list" where
  "generateMockChartData tz now random interval =
     (let today = now;
          basePrice = js_add (Fin 100) (js_mul (Fin (random 0)) (Fin 50));
          intervalMinutes = getIntervalMinutes interval;
          dataPoints = getDataLimitForInterval interval
      in mockLoop tz today random interval intervalMinutes dataPoints basePrice 1 [])"

text \<open>
  The payload: \<open>Response st items\<close> is an object whose \<^verbatim>\<open>data\<close> is an array and whose
  \<^verbatim>\<open>status\<close> is \<open>st\<close>; \<open>Unusable\<close> is any other value. The function returns an array
  either way; the result says which one: \<open>ChartData\<close> is the chart data computed from
  the payload, \<open>MockChartData\<close> the synthetic series of line 176. That last call stands
  outside the \<^verbatim>\<open>try\<close> block, so an exception in it leaves the function (\<open>Thrown\<close>).
\<close>

datatype jsonData = Unusable | Response jsval "item list"

datatype chartResult =
  ChartData "ChartDataPoint list" | MockChartData "ChartDataPoint list" | Thrown error

text \<open>\<^verbatim>\<open>jsonData.status === 1\<close>: the status is a number and its value is 1.\<close>

definition statusIsOne :: "jsval \<Rightarrow> bool" where
  "statusIsOne st = (case st of JNum q \<Rightarrow> roundDouble q = Fin 1 | _ \<Rightarrow> False)"

definition parseJSONChartData ::
  "int \<Rightarrow> int \<Rightarrow> (nat \<Rightarrow> rat) \<Rightarrow> jsonData \<Rightarrow> string \<Rightarrow> ChartTimeInterval \<Rightarrow> chartResult" where
  "parseJSONChartData tz now random json symbol interval =
     (let fallback = (case generateMockChartData tz now random interval of
                        Inl e \<Rightarrow> Thrown e
                      | Inr mockData \<Rightarrow> MockChartData mockData)
      in case json of
           Unusable \<Rightarrow> fallback
         | Response st items \<Rightarrow>
             if statusIsOne st then
               (case parseItems interval items of
                  Inl e \<Rightarrow> fallback
                | Inr chartData \<Rightarrow>
                    (case sortAggregateLimit tz chartData interval of
                       Inl e \<Rightarrow> fallback
                     | Inr limited \<Rightarrow> ChartData limited))
             else fallback)"

section \<open>The market snapshot\<close>

text \<open>
  What \<^verbatim>\<open>parseHTMLData\<close> reads of a table cell: the text of its first \<^verbatim>\<open>strong\<close>
  descendant, if there is one; its first \<^verbatim>\<open>a\<close> descendant, if there is one, given by
  that element's \<^verbatim>\<open>data-title\<close> attribute, if it has one; its own text; and its
  \<^verbatim>\<open>data-order\<close> attribute, if it has one. A row is the list of its cells, the
  document the list of its rows.
\<close>

record Cell =
  strong :: "string option"
  anchor :: "string option option"
  textContent :: string
  dataOrder :: "string option"

text \<open>
  A quote. The fields \<^verbatim>\<open>open\<close> and \<^verbatim>\<open>volume\<close> of \<^verbatim>\<open>StockData\<close> are named
  \<open>openPrice\<close> and \<open>stockVolume\<close> here. All its numbers come from \<^verbatim>\<open>parseFloat\<close> and
  \<^verbatim>\<open>parseInt\<close> with nothing substituted, so each of them may be \<open>NaN\<close>.
\<close>

record StockData =
  symbol :: string
  company :: string
  sector :: string
  ldcp :: number
  openPrice :: number
  high :: number
  low :: number
  current :: number
  change :: number
  changePercent :: number
  stockVolume :: number
  isPositive :: bool

text \<open>\<^verbatim>\<open>a || '0'\<close> for an attribute \<open>a\<close>: a missing or empty attribute reads as \<^verbatim>\<open>'0'\<close>.\<close>

definition orString0 :: "string option \<Rightarrow> string" where
  "orString0 a = (case a of None \<Rightarrow> ''0'' | Some s \<Rightarrow> if s = [] then ''0'' else s)"

definition orEmpty :: "string option \<Rightarrow> string" where
  "orEmpty a = (case a of None \<Rightarrow> [] | Some s \<Rightarrow> s)"

text \<open>The number \<^verbatim>\<open>parseInt\<close> returns: \<open>NaN\<close>, or the double nearest the integer read.\<close>

definition intNumber :: "int option \<Rightarrow> number" where
  "intNumber r = (case r of None \<Rightarrow> NaN | Some n \<Rightarrow> roundDouble (of_int n))"

text \<open>
  The body of the \<^verbatim>\<open>try\<close> block for one row of at least ten cells. \<^verbatim>\<open>cells[10]\<close> is
  \<^verbatim>\<open>undefined\<close> in a row of exactly ten cells, and calling \<^verbatim>\<open>getAttribute\<close> on it
  throws a \<^verbatim>\<open>TypeError\<close>.
\<close>

definition rowData :: "Cell list \<Rightarrow> error + StockData option" where
  "rowData cells =
     (case (strong (cells ! 0), anchor (cells ! 0)) of
        (Some symbolText, Some dataTitle) \<Rightarrow>
          if length cells \<le> 10 then Inl TypeError
          else
            let chg = parseFloat (JStr (orString0 (dataOrder (cells ! 8))))
            in Inr (Some \<lparr>symbol = trim symbolText,
                          company = orEmpty dataTitle,
                          sector = trim (textContent (cells ! 2)),
                          ldcp = parseFloat (JStr (orString0 (dataOrder (cells ! 3)))),
                          openPrice = parseFloat (JStr (orString0 (dataOrder (cells ! 4)))),
                          high = parseFloat (JStr (orString0 (dataOrder (cells ! 5)))),
                          low = parseFloat (JStr (orString0 (dataOrder (cells ! 6)))),
                          current = parseFloat (JStr (orString0 (dataOrder (cells ! 7)))),
                          change = chg,
                          changePercent = parseFloat (JStr (orString0 (dataOrder (cells ! 9)))),
                          stockVolume = intNumber (parseInt (JStr (orString0 (dataOrder (cells ! 10))))),
                          isPositive = js_ge chg (Fin 0)\<rparr>)
      | _ \<Rightarrow> Inr None)"

text \<open>One row: rows of fewer than ten cells are passed over, and the \<^verbatim>\<open>catch\<close> turns an
  exception into a warning on the console and no record.\<close>

definition parseRow :: "Cell list \<Rightarrow> StockData option" where
  "parseRow cells =
     (if 10 \<le> length cells then
        (case rowData cells of Inl e \<Rightarrow> None | Inr r \<Rightarrow> r)
      else None)"

definition parseHTMLData :: "Cell list list \<Rightarrow> StockData list" where
  "parseHTMLData rows = concat (map (\<lambda>row. case parseRow row of None \<Rightarrow> [] | Some st \<Rightarrow> [st]) rows)"

record MarketSummary =
  totalStocks :: nat
  gainers :: nat
  losers :: nat
  unchanged :: nat
  totalVolume :: number

definition calculateMarketSummary :: "StockData list \<Rightarrow> MarketSummary" where
  "calculateMarketSummary stocks =
     \<lparr>totalStocks = length stocks,
      gainers = length (filter (\<lambda>stock. js_gt (change stock) (Fin 0)) stocks),
      losers = length (filter (\<lambda>stock. js_lt (change stock) (Fin 0)) stocks),
      unchanged = length (filter (\<lambda>stock. js_seq (change stock) (Fin 0)) stocks),
      totalVolume = foldl (\<lambda>sum stock. js_add sum (stockVolume stock)) (Fin 0) stocks\<rparr>"

section \<open>Doubles\<close>

subsection \<open>Powers of two and the binary exponent\<close>

lemma pow2_powi: "pow2 e = 2 powi e"
  by (simp add: pow2_def power_int_def field_simps)

lemma expo_eq:
  "expo x =
     (let (a, b) = quotient_of \<bar>x\<bar>; e = bitlen a - bitlen b
      in if 2 powi e \<le> \<bar>x\<bar> then e else e - 1)"
  by (simp add: expo_def pow2_powi)

lemma quantum_eq: "quantum x = 2 powi (max (expo x) (- 1022) - 52)"
  by (simp add: quantum_def pow2_powi)

lemma pow2_pos [simp]: "0 < (2::rat) powi e"
  by (simp add: zero_less_power_int)

lemma pow2_Suc: "(2::rat) powi (e + 1) = 2 * 2 powi e"
  by (simp add: power_int_add)

lemma pow2_mono: "a \<le> b \<Longrightarrow> (2::rat) powi a \<le> 2 powi b"
  by (rule power_int_increasing) simp_all

lemma pow2_strict_mono: "a < b \<Longrightarrow> (2::rat) powi a < 2 powi b"
  by (rule power_int_strict_increasing) simp_all

lemma pow2_diff: "(2::rat) powi (a - b) = 2 powi a / 2 powi b"
  by (simp add: power_int_diff)

lemma expo_bounds:
  assumes "x \<noteq> 0"
  shows "2 powi (expo x) \<le> \<bar>x\<bar>" and "\<bar>x\<bar> < 2 powi (expo x + 1)"
proof -
  obtain a b where ab: "quotient_of \<bar>x\<bar> = (a, b)" by (cases "quotient_of \<bar>x\<bar>")
  have b: "0 < b" using quotient_of_denom_pos [OF ab] .
  have x: "\<bar>x\<bar> = of_int a / of_int b" using quotient_of_div [OF ab] .
  have "0 < \<bar>x\<bar>" using assms by simp
  then have a: "0 < a" using b x by (simp add: zero_less_divide_iff)
  define e where "e = bitlen a - bitlen b"
  from bitlen_bounds [OF a] have a1: "2 ^ nat (bitlen a - 1) \<le> a" and a2: "a < 2 ^ nat (bitlen a)"
    by auto
  from bitlen_bounds [OF b] have b1: "2 ^ nat (bitlen b - 1) \<le> b" and b2: "b < 2 ^ nat (bitlen b)"
    by auto
  have la: "1 \<le> bitlen a" using a by (simp add: bitlen_alt_def)
  have lb: "1 \<le> bitlen b" using b by (simp add: bitlen_alt_def)
  have ra1: "(2::rat) powi (bitlen a - 1) \<le> of_int a"
  proof -
    have "(of_int (2 ^ nat (bitlen a - 1)) :: rat) \<le> of_int a" using a1 by (simp only: of_int_le_iff)
    then show ?thesis using la by (simp add: power_int_def)
  qed
  have ra2: "(of_int a :: rat) < 2 powi (bitlen a)"
  proof -
    have "(of_int a :: rat) < of_int (2 ^ nat (bitlen a))" using a2 by (simp only: of_int_less_iff)
    then show ?thesis using la by (simp add: power_int_def)
  qed
  have rb1: "(2::rat) powi (bitlen b - 1) \<le> of_int b"
  proof -
    have "(of_int (2 ^ nat (bitlen b - 1)) :: rat) \<le> of_int b" using b1 by (simp only: of_int_le_iff)
    then show ?thesis using lb by (simp add: power_int_def)
  qed
  have rb2: "(of_int b :: rat) < 2 powi (bitlen b)"
  proof -
    have "(of_int b :: rat) < of_int (2 ^ nat (bitlen b))" using b2 by (simp only: of_int_less_iff)
    then show ?thesis using lb by (simp add: power_int_def)
  qed
  have bpos: "(0::rat) < of_int b" using b by simp
  have apos: "(0::rat) < of_int a" using a by simp
  have lower: "2 powi (e - 1) < \<bar>x\<bar>"
  proof -
    have "2 powi (e - 1) * of_int b < (2::rat) powi (e - 1) * 2 powi (bitlen b)"
      using rb2 by simp
    also have "\<dots> = 2 powi (bitlen a - 1)"
      by (simp add: e_def flip: power_int_add)
    also have "\<dots> \<le> of_int a" by (rule ra1)
    finally show ?thesis using bpos by (simp add: x pos_less_divide_eq)
  qed
  have upper: "\<bar>x\<bar> < 2 powi (e + 1)"
  proof -
    have "of_int a < (2::rat) powi (bitlen a)" by (rule ra2)
    also have "\<dots> = 2 powi (e + 1) * 2 powi (bitlen b - 1)"
      by (simp add: e_def flip: power_int_add)
    also have "\<dots> \<le> 2 powi (e + 1) * of_int b"
      using rb1 by simp
    finally show ?thesis using bpos by (simp add: x pos_divide_less_eq)
  qed
  have ex: "expo x = (if 2 powi e \<le> \<bar>x\<bar> then e else e - 1)"
    by (simp add: expo_eq ab e_def Let_def)
  show "2 powi (expo x) \<le> \<bar>x\<bar>" using lower by (simp add: ex)
  show "\<bar>x\<bar> < 2 powi (expo x + 1)" using upper by (auto simp: ex not_le)
qed

lemma expo_unique:
  assumes "2 powi e \<le> \<bar>x\<bar>" and "\<bar>x\<bar> < 2 powi (e + 1)"
  shows "expo x = e"
proof -
  have "0 < \<bar>x\<bar>" using assms(1) pow2_pos [of e] by linarith
  then have x: "x \<noteq> 0" by simp
  note b = expo_bounds [OF x]
  have "\<not> expo x < e"
  proof
    assume "expo x < e"
    then have "(2::rat) powi (expo x + 1) \<le> 2 powi e" by (intro pow2_mono) simp
    with b(2) assms(1) show False by simp
  qed
  moreover have "\<not> e < expo x"
  proof
    assume "e < expo x"
    then have "(2::rat) powi (e + 1) \<le> 2 powi (expo x)" by (intro pow2_mono) simp
    with b(1) assms(2) show False by simp
  qed
  ultimately show ?thesis by simp
qed

lemma roundHalfEven_error: "\<bar>of_int (roundHalfEven x) - x\<bar> \<le> 1 / 2"
proof -
  have f: "of_int \<lfloor>x\<rfloor> \<le> x" "x < of_int \<lfloor>x\<rfloor> + 1" by linarith+
  show ?thesis
    unfolding roundHalfEven_def Let_def using f by (simp add: abs_le_iff)
qed

lemma roundHalfEven_near:
  assumes "\<bar>x - of_int m\<bar> < 1 / 2"
  shows "roundHalfEven x = m"
proof -
  have "\<bar>(of_int (roundHalfEven x) :: rat) - of_int m\<bar> < 1"
    using roundHalfEven_error [of x] assms by linarith
  then have "\<bar>(of_int (roundHalfEven x - m) :: rat)\<bar> < 1" by simp
  then have "\<bar>roundHalfEven x - m\<bar> < 1"
    by (metis of_int_abs of_int_less_1_iff)
  then show ?thesis by simp
qed

lemma roundHalfEven_of_int [simp]: "roundHalfEven (of_int n) = n"
  by (rule roundHalfEven_near) simp

lemma roundHalfEven_mono: "x \<le> y \<Longrightarrow> roundHalfEven x \<le> roundHalfEven y"
proof (rule ccontr)
  assume xy: "x \<le> y" and "\<not> roundHalfEven x \<le> roundHalfEven y"
  then have lt: "roundHalfEven y + 1 \<le> roundHalfEven x" by simp
  then have "(of_int (roundHalfEven y) :: rat) + 1 \<le> of_int (roundHalfEven x)"
    by (metis of_int_1 of_int_add of_int_le_iff)
  with roundHalfEven_error [of x] roundHalfEven_error [of y] xy
  have eq: "of_int (roundHalfEven x) = x + 1 / 2" "of_int (roundHalfEven y) = y - 1 / 2" "x = y"
    by linarith+
  then have e1: "of_int (roundHalfEven x) = of_int (roundHalfEven y) + (1::rat)" by simp
  then have "roundHalfEven x = roundHalfEven y + 1"
    by (metis of_int_1 of_int_add of_int_eq_iff)
  moreover have "roundHalfEven x = roundHalfEven y" using eq(3) by simp
  ultimately show False by simp
qed

lemma expo_ge:
  assumes "2 powi a \<le> \<bar>x\<bar>"
  shows "a \<le> expo x"
proof -
  have "0 < \<bar>x\<bar>" using assms pow2_pos [of a] by linarith
  then have x: "x \<noteq> 0" by simp
  have "a < expo x + 1"
  proof (rule ccontr)
    assume "\<not> a < expo x + 1"
    then have "(2::rat) powi (expo x + 1) \<le> 2 powi a" by (intro pow2_mono) simp
    with assms expo_bounds(2) [OF x] show False by simp
  qed
  then show ?thesis by simp
qed

lemma expo_zero: "expo 0 = - 2"
  by code_simp

lemma roundDouble_eq:
  "roundDouble x =
     (if x = 0 then Fin 0
      else
        let y = of_int (roundHalfEven (x / quantum x)) * quantum x
        in if 2 powi 1024 \<le> \<bar>y\<bar> then signed_inf (if x < 0 then - 1 else 1) else Fin y)"
proof -
  have "(1024 \<le> expo y) = (2 powi 1024 \<le> \<bar>y\<bar>)" for y
  proof (cases "y = 0")
    case True
    have "\<not> (2::rat) powi 1024 \<le> 0" using pow2_pos [of 1024] by (simp only: not_le)
    then show ?thesis using True by (simp add: expo_zero del: power_int_numeral)
  next
    case False
    show ?thesis
    proof
      assume "1024 \<le> expo y"
      then have "(2::rat) powi 1024 \<le> 2 powi (expo y)" by (rule pow2_mono)
      with expo_bounds(1) [OF False] show "2 powi 1024 \<le> \<bar>y\<bar>" by linarith
    next
      assume "2 powi 1024 \<le> \<bar>y\<bar>"
      then show "1024 \<le> expo y" by (rule expo_ge)
    qed
  qed
  then show ?thesis by (simp only: roundDouble_def)
qed

subsection \<open>Rounding\<close>

lemma quantum_pos [simp]: "0 < quantum x"
  by (simp add: quantum_eq)

lemma quantum_nonzero [simp]: "quantum x \<noteq> 0"
  by (simp add: quantum_eq)

lemma quantum_nonneg [simp]: "0 \<le> quantum x"
  by (simp add: quantum_eq less_imp_le)

lemma pow2_nonneg_int: "0 \<le> n \<Longrightarrow> (2::rat) powi n = of_int (2 ^ nat n)"
  by (simp add: power_int_def)

lemma mantissa_less:
  assumes "x \<noteq> 0"
  shows "\<bar>x / quantum x\<bar> < 2 ^ 53"
proof -
  let ?E = "max (expo x) (- 1022)"
  have "\<bar>x\<bar> < 2 powi (expo x + 1)" by (rule expo_bounds [OF assms])
  also have "\<dots> \<le> 2 powi (?E + 1)" by (rule pow2_mono) simp
  also have "\<dots> = 2 ^ 53 * quantum x"
  proof -
    have "(2::rat) powi (?E + 1) = 2 powi (53 + (?E - 52))" by (simp add: algebra_simps)
    also have "\<dots> = 2 powi 53 * 2 powi (?E - 52)" by (rule power_int_add) simp
    finally show ?thesis by (simp add: quantum_eq)
  qed
  finally show ?thesis by (simp add: abs_divide pos_divide_less_eq abs_of_pos)
qed

lemma mantissa_ge:
  assumes "x \<noteq> 0" and "- 1022 \<le> expo x"
  shows "2 ^ 52 \<le> \<bar>x / quantum x\<bar>"
proof -
  have "2 ^ 52 * quantum x = 2 powi 52 * 2 powi (expo x - 52)"
    using assms(2) by (simp add: quantum_eq max_def)
  also have "\<dots> = 2 powi (52 + (expo x - 52))" by (rule power_int_add [symmetric]) simp
  also have "\<dots> = 2 powi (expo x)" by simp
  also have "\<dots> \<le> \<bar>x\<bar>" by (rule expo_bounds [OF assms(1)])
  finally show ?thesis by (simp add: abs_divide pos_le_divide_eq abs_of_pos)
qed

lemma abs_roundHalfEven_le:
  assumes "\<bar>x\<bar> \<le> of_int n"
  shows "\<bar>roundHalfEven x\<bar> \<le> n"
proof -
  have "x \<le> of_int n" "of_int (- n) \<le> x" using assms by (simp_all add: abs_le_iff)
  from roundHalfEven_mono [OF this(1)] roundHalfEven_mono [OF this(2)]
  show ?thesis by (simp only: roundHalfEven_of_int abs_le_iff) simp
qed

lemma abs_roundHalfEven_ge:
  assumes "of_int n \<le> \<bar>x\<bar>" and "0 \<le> n"
  shows "n \<le> \<bar>roundHalfEven x\<bar>"
proof (cases "0 \<le> x")
  case True
  with assms have "of_int n \<le> x" by simp
  from roundHalfEven_mono [OF this] show ?thesis by simp
next
  case False
  with assms have "x \<le> of_int (- n)" by simp
  from roundHalfEven_mono [OF this] have "roundHalfEven x \<le> - n"
    by (simp only: roundHalfEven_of_int)
  then show ?thesis by simp
qed

lemma mantissa_bounds:
  assumes "x \<noteq> 0"
  shows "\<bar>roundHalfEven (x / quantum x)\<bar> \<le> 2 ^ 53"
    and "- 1022 \<le> expo x \<Longrightarrow> 2 ^ 52 \<le> \<bar>roundHalfEven (x / quantum x)\<bar>"
proof -
  have "\<bar>x / quantum x\<bar> \<le> of_int (2 ^ 53)" using mantissa_less [OF assms] by simp
  then show "\<bar>roundHalfEven (x / quantum x)\<bar> \<le> 2 ^ 53" by (rule abs_roundHalfEven_le)
  assume "- 1022 \<le> expo x"
  then have "of_int (2 ^ 52) \<le> \<bar>x / quantum x\<bar>" using mantissa_ge [OF assms] by simp
  then show "2 ^ 52 \<le> \<bar>roundHalfEven (x / quantum x)\<bar>" by (rule abs_roundHalfEven_ge) simp
qed

text \<open>A number that is a whole multiple of its own quantum, below the overflow threshold,
  is a double.\<close>

lemma roundDouble_exact:
  assumes "x / quantum x = of_int k" and "\<bar>x\<bar> < 2 powi 1024"
  shows "roundDouble x = Fin x"
proof (cases "x = 0")
  case True
  then show ?thesis by (simp add: roundDouble_eq)
next
  case False
  have "roundHalfEven (x / quantum x) = k" by (simp add: assms(1))
  moreover have "of_int k * quantum x = x"
    using assms(1) by (simp add: field_simps)
  ultimately have "of_int (roundHalfEven (x / quantum x)) * quantum x = x" by simp
  then show ?thesis using False assms(2) by (simp add: roundDouble_eq Let_def)
qed

lemma roundDouble_FinD:
  assumes "roundDouble x = Fin p" and "x \<noteq> 0"
  shows "p = of_int (roundHalfEven (x / quantum x)) * quantum x" and "\<bar>p\<bar> < 2 powi 1024"
  using assms by (auto simp: roundDouble_eq Let_def signed_inf_def split: if_splits)

lemma roundDouble_zero [simp]: "roundDouble 0 = Fin 0"
  by (simp add: roundDouble_eq)

lemma roundDouble_error:
  assumes "roundDouble x = Fin p"
  shows "\<bar>p - x\<bar> \<le> quantum x / 2"
proof (cases "x = 0")
  case True
  with assms show ?thesis by simp
next
  case False
  note p = roundDouble_FinD [OF assms False]
  have "\<bar>of_int (roundHalfEven (x / quantum x)) - x / quantum x\<bar> * quantum x \<le> 1 / 2 * quantum x"
    by (intro mult_right_mono roundHalfEven_error) simp
  moreover have "\<bar>of_int (roundHalfEven (x / quantum x)) - x / quantum x\<bar> * quantum x = \<bar>p - x\<bar>"
  proof -
    have "\<bar>of_int (roundHalfEven (x / quantum x)) - x / quantum x\<bar> * quantum x =
          \<bar>(of_int (roundHalfEven (x / quantum x)) - x / quantum x) * quantum x\<bar>"
      by (simp add: abs_mult)
    also have "(of_int (roundHalfEven (x / quantum x)) - x / quantum x) * quantum x = p - x"
      by (simp add: p(1) algebra_simps)
    finally show ?thesis .
  qed
  ultimately show ?thesis by simp
qed

lemma pow2_less_exp: "(2::rat) powi a \<le> y \<Longrightarrow> y < 2 powi b \<Longrightarrow> a < b"
proof (rule ccontr)
  assume "2 powi a \<le> y" "y < 2 powi b" "\<not> a < b"
  then have "(2::rat) powi b \<le> 2 powi a" by (intro pow2_mono) simp
  with \<open>2 powi a \<le> y\<close> \<open>y < 2 powi b\<close> show False by simp
qed

text \<open>A number \<open>n * 2^c\<close> whose \<open>c\<close> is at least the exponent of its own quantum is a
  whole multiple of that quantum.\<close>

lemma multiple_of_quantum:
  assumes "x = of_int n * 2 powi c" and "max (expo x) (- 1022) - 52 \<le> c"
  shows "\<exists>k. x / quantum x = of_int k"
proof -
  let ?d = "c - (max (expo x) (- 1022) - 52)"
  have "x / quantum x = of_int n * (2 powi c / 2 powi (max (expo x) (- 1022) - 52))"
    by (simp add: assms(1) quantum_eq)
  also have "2 powi c / 2 powi (max (expo x) (- 1022) - 52) = (2::rat) powi ?d"
    by (rule pow2_diff [symmetric])
  also have "\<dots> = of_int (2 ^ nat ?d)" using assms(2) by (intro pow2_nonneg_int) simp
  finally have "x / quantum x = of_int (n * 2 ^ nat ?d)" by simp
  then show ?thesis by blast
qed

lemma roundDouble_multiple:
  assumes "x = of_int n * 2 powi c" and "max (expo x) (- 1022) - 52 \<le> c"
    and "\<bar>x\<bar> < 2 powi 1024"
  shows "roundDouble x = Fin x"
  using multiple_of_quantum [OF assms(1,2)] roundDouble_exact [OF _ assms(3)] by blast

lemma expo_le:
  assumes "x \<noteq> 0" and "\<bar>x\<bar> < 2 powi b"
  shows "expo x < b"
  using expo_bounds(1) [OF assms(1)] assms(2) by (rule pow2_less_exp)

text \<open>Rounding is idempotent: what it returns is a double.\<close>

lemma roundDouble_idem:
  assumes "roundDouble x = Fin p"
  shows "roundDouble p = Fin p"
proof (cases "x = 0 \<or> p = 0")
  case True
  with assms show ?thesis by auto
next
  case False
  then have x: "x \<noteq> 0" and p0: "p \<noteq> 0" by auto
  define E where "E = max (expo x) (- 1022)"
  define m where "m = roundHalfEven (x / quantum x)"
  note pd = roundDouble_FinD [OF assms x]
  have p: "p = of_int m * 2 powi (E - 52)" using pd(1) by (simp add: m_def E_def quantum_eq)
  have m53: "\<bar>m\<bar> \<le> 2 ^ 53" using mantissa_bounds(1) [OF x] by (simp add: m_def)
  have absp: "\<bar>p\<bar> = of_int \<bar>m\<bar> * 2 powi (E - 52)"
    by (simp add: p abs_mult)
  have top: "(2::rat) ^ 53 * 2 powi (E - 52) = 2 powi (E + 1)"
  proof -
    have "(2::rat) powi (E + 1) = 2 powi (53 + (E - 52))" by (simp add: algebra_simps)
    also have "\<dots> = 2 powi 53 * 2 powi (E - 52)" by (rule power_int_add) simp
    finally show ?thesis by simp
  qed
  show ?thesis
  proof (cases "\<bar>m\<bar> = 2 ^ 53")
    case True
    then have "\<bar>p\<bar> = 2 powi (E + 1)" using absp top by simp
    then have e: "expo p = E + 1" by (intro expo_unique) (simp_all add: pow2_strict_mono)
    have "p = of_int (if m < 0 then - 1 else 1) * 2 powi (E + 1)"
    proof (cases "m < 0")
      case True
      with \<open>\<bar>m\<bar> = 2 ^ 53\<close> have "m = - (2 ^ 53)" by simp
      then have "p = - ((2::rat) ^ 53 * 2 powi (E - 52))" by (simp add: p)
      then show ?thesis using True by (simp only: top) simp
    next
      case False
      with \<open>\<bar>m\<bar> = 2 ^ 53\<close> have "m = 2 ^ 53" by simp
      then have "p = (2::rat) ^ 53 * 2 powi (E - 52)" by (simp add: p)
      then show ?thesis using False by (simp only: top) simp
    qed
    moreover have "max (expo p) (- 1022) - 52 \<le> E + 1" using e by (simp add: E_def)
    ultimately show ?thesis using pd(2) by (rule roundDouble_multiple)
  next
    case False
    with m53 have "\<bar>m\<bar> < 2 ^ 53" by simp
    then have "(of_int \<bar>m\<bar> :: rat) < 2 ^ 53"
      by (metis of_int_less_iff of_int_numeral of_int_power)
    then have "\<bar>p\<bar> < 2 ^ 53 * 2 powi (E - 52)" by (simp add: absp)
    then have "\<bar>p\<bar> < 2 powi (E + 1)" by (simp only: top)
    from expo_le [OF p0 this] have "max (expo p) (- 1022) - 52 \<le> E - 52"
      by (simp add: E_def)
    with p show ?thesis using pd(2) by (rule roundDouble_multiple)
  qed
qed

text \<open>Integers up to \<open>2^53\<close> in magnitude are doubles.\<close>

lemma roundDouble_of_int:
  assumes "\<bar>n\<bar> \<le> 2 ^ 53"
  shows "roundDouble (of_int n) = Fin (of_int n)"
proof (cases "\<bar>n\<bar> = 2 ^ 53")
  case True
  then have a: "\<bar>(of_int n :: rat)\<bar> = 2 powi 53"
    by (metis of_int_abs of_int_numeral of_int_power power_int_numeral)
  then have e: "expo (of_int n) = 53" by (intro expo_unique) simp_all
  have "(of_int n :: rat) = of_int (if n < 0 then - 1 else 1) * 2 powi 53"
    using a by (auto simp: abs_if split: if_splits)
  moreover have "max (expo (of_int n :: rat)) (- 1022) - 52 \<le> 53" by (simp add: e)
  moreover have "\<bar>(of_int n :: rat)\<bar> < 2 powi 1024" by (simp add: a)
  ultimately show ?thesis by (rule roundDouble_multiple)
next
  case False
  with assms have "\<bar>n\<bar> < 2 ^ 53" by simp
  then have lt: "\<bar>(of_int n :: rat)\<bar> < 2 powi 53"
    by (metis of_int_abs of_int_less_iff of_int_numeral of_int_power power_int_numeral)
  show ?thesis
  proof (cases "n = 0")
    case True
    then show ?thesis by simp
  next
    case False
    then have "expo (of_int n :: rat) < 53" using lt by (intro expo_le) simp_all
    then have "max (expo (of_int n :: rat)) (- 1022) - 52 \<le> 0" by simp
    moreover have "(of_int n :: rat) = of_int n * 2 powi 0" by simp
    moreover have "\<bar>(of_int n :: rat)\<bar> < 2 powi 1024"
      using lt pow2_strict_mono [of 53 1024] by linarith
    ultimately show ?thesis by (intro roundDouble_multiple [where n = n and c = 0])
  qed
qed

text \<open>From \<open>2^52\<close> on, doubles are integers.\<close>

lemma roundDouble_integer:
  assumes "roundDouble x = Fin p" and "2 powi 52 \<le> \<bar>x\<bar>"
  shows "\<exists>k. p = of_int k"
proof -
  have e: "52 \<le> expo x" using assms(2) by (rule expo_ge)
  have x: "x \<noteq> 0" using assms(2) pow2_pos [of 52] by auto
  from roundDouble_FinD(1) [OF assms(1) x]
  have "p = of_int (roundHalfEven (x / quantum x)) * 2 powi (expo x - 52)"
    using e by (simp add: quantum_eq max_def)
  also have "(2::rat) powi (expo x - 52) = of_int (2 ^ nat (expo x - 52))"
    using e by (intro pow2_nonneg_int) simp
  finally have "p = of_int (roundHalfEven (x / quantum x) * 2 ^ nat (expo x - 52))" by simp
  then show ?thesis by blast
qed

subsection \<open>Rounding to hundredths\<close>

lemma roundCents_near:
  assumes "\<bar>x - of_int k / 100\<bar> < 1 / 200"
  shows "roundCents x = of_int k / 100"
proof -
  from assms have a: "x * 100 - of_int k < 1 / 2" "- (1 / 2) < x * 100 - of_int k"
    by linarith+
  show ?thesis
  proof (cases "x < 0")
    case True
    then have "\<bar>x\<bar> = - x" by simp
    have "\<lfloor>\<bar>x\<bar> * 100 + 1 / 2\<rfloor> = - k"
    proof (rule floor_unique)
      show "of_int (- k) \<le> \<bar>x\<bar> * 100 + 1 / 2"
        unfolding \<open>\<bar>x\<bar> = - x\<close> of_int_minus using a by linarith
      show "\<bar>x\<bar> * 100 + 1 / 2 < of_int (- k) + 1"
        unfolding \<open>\<bar>x\<bar> = - x\<close> of_int_minus using a by linarith
    qed
    then show ?thesis using True by (simp add: roundCents_def)
  next
    case False
    then have "\<bar>x\<bar> = x" by simp
    have "\<lfloor>\<bar>x\<bar> * 100 + 1 / 2\<rfloor> = k"
    proof (rule floor_unique)
      show "of_int k \<le> \<bar>x\<bar> * 100 + 1 / 2"
        unfolding \<open>\<bar>x\<bar> = x\<close> using a by linarith
      show "\<bar>x\<bar> * 100 + 1 / 2 < of_int k + 1"
        unfolding \<open>\<bar>x\<bar> = x\<close> using a by linarith
    qed
    then show ?thesis using False by (simp add: roundCents_def)
  qed
qed

lemma roundCents_of_int [simp]: "roundCents (of_int n) = of_int n"
  using roundCents_near [of "of_int n" "100 * n"] by simp

lemma roundCents_zero [simp]: "roundCents 0 = 0"
  using roundCents_of_int [of 0] by simp

lemma roundCents_hundredth: "\<exists>k. roundCents x = of_int k / 100"
proof -
  have "roundCents x = of_int ((if x < 0 then - 1 else 1) * \<lfloor>\<bar>x\<bar> * 100 + 1 / 2\<rfloor>) / 100"
    by (simp add: roundCents_def)
  then show ?thesis by blast
qed

lemma roundCents_error: "\<bar>roundCents x - x\<bar> \<le> 1 / 200"
proof -
  define f where "f = \<lfloor>\<bar>x\<bar> * 100 + 1 / 2\<rfloor>"
  have 1: "of_int f \<le> \<bar>x\<bar> * 100 + 1 / 2" and 2: "\<bar>x\<bar> * 100 + 1 / 2 < of_int f + 1"
    unfolding f_def by linarith+
  show ?thesis
  proof (cases "x < 0")
    case True
    then have "roundCents x = - (of_int f / 100)" by (simp add: roundCents_def f_def)
    moreover have "\<bar>x\<bar> = - x" using True by simp
    ultimately show ?thesis using 1 2 by linarith
  next
    case False
    then have "roundCents x = of_int f / 100" by (simp add: roundCents_def f_def)
    moreover have "\<bar>x\<bar> = x" using False by simp
    ultimately show ?thesis using 1 2 by linarith
  qed
qed

subsection \<open>\<open>toFixed(2)\<close> followed by \<open>parseFloat\<close> is idempotent on doubles\<close>

text \<open>Below \<open>2^46\<close> the doubles are closer to each other than a hundredth is wide, so
  the double nearest a hundredth still rounds to that hundredth.\<close>

lemma roundCents_near_double:
  assumes "roundDouble d = Fin p" and "d = of_int k / 100" and "expo d \<le> 45"
  shows "roundCents p = d"
proof -
  have "max (expo d) (- 1022) - 52 \<le> - 7" using assms(3) by simp
  then have "quantum d \<le> 2 powi (- 7)" unfolding quantum_eq by (rule pow2_mono)
  also have "\<dots> = 1 / 128" by (simp add: power_int_minus)
  finally have "quantum d / 2 \<le> 1 / 256" by simp
  with roundDouble_error [OF assms(1)] have "\<bar>p - d\<bar> < 1 / 200" by simp
  then show ?thesis unfolding assms(2) by (rule roundCents_near)
qed

text \<open>From \<open>2^46\<close> on the doubles are at least \<open>1/64\<close> apart, so a double that is not an
  integer is the nearest double of its own hundredth.\<close>

lemma roundCents_far_double:
  assumes "roundDouble d = Fin p" and "46 \<le> expo d" and "\<nexists>k. p = of_int k"
    and d0: "d \<noteq> 0"
  shows "roundDouble (roundCents p) = Fin p"
proof -
  define E where "E = expo d"
  define Q :: rat where "Q = 2 powi (E - 52)"
  define m where "m = roundHalfEven (d / quantum d)"
  have qd: "quantum d = Q" using assms(2) by (simp add: quantum_eq Q_def E_def max_def)
  note pd = roundDouble_FinD [OF assms(1) d0]
  have p: "p = of_int m * Q" using pd(1) by (simp add: m_def qd)
  have Qpos: "0 < Q" by (simp add: Q_def)
  have E51: "E < 52"
  proof (rule ccontr)
    assume "\<not> E < 52"
    then have "Q = of_int (2 ^ nat (E - 52))" unfolding Q_def by (intro pow2_nonneg_int) simp
    then have "p = of_int (m * 2 ^ nat (E - 52))" by (simp add: p)
    with assms(3) show False by blast
  qed
  have Q64: "1 / 64 \<le> Q"
  proof -
    have "(2::rat) powi (- 6) \<le> 2 powi (E - 52)" using assms(2) by (intro pow2_mono) (simp add: E_def)
    then show ?thesis by (simp add: Q_def power_int_minus)
  qed
  have top: "(2::rat) ^ 53 * Q = 2 powi (E + 1)"
  proof -
    have "(2::rat) powi (E + 1) = 2 powi (53 + (E - 52))" by (simp add: algebra_simps)
    also have "\<dots> = 2 powi 53 * 2 powi (E - 52)" by (rule power_int_add) simp
    finally show ?thesis by (simp add: Q_def)
  qed
  have bot: "(2::rat) ^ 52 * Q = 2 powi E"
  proof -
    have "(2::rat) powi E = 2 powi (52 + (E - 52))" by (simp add: algebra_simps)
    also have "\<dots> = 2 powi 52 * 2 powi (E - 52)" by (rule power_int_add) simp
    finally show ?thesis by (simp add: Q_def)
  qed
  have Eint: "(2::rat) powi E = of_int (2 ^ nat E)"
    using assms(2) by (intro pow2_nonneg_int) (simp add: E_def)
  have E1int: "(2::rat) powi (E + 1) = of_int (2 ^ nat (E + 1))"
    using assms(2) by (intro pow2_nonneg_int) (simp add: E_def)
  have absp: "\<bar>p\<bar> = of_int \<bar>m\<bar> * Q" using Qpos by (simp add: p abs_mult)
  have mb: "2 ^ 52 \<le> \<bar>m\<bar>" "\<bar>m\<bar> \<le> 2 ^ 53"
    using mantissa_bounds [OF d0] assms(2) by (simp_all add: m_def)
  have not52: "\<bar>m\<bar> \<noteq> 2 ^ 52"
  proof
    assume a: "\<bar>m\<bar> = 2 ^ 52"
    then have "\<bar>p\<bar> = of_int (2 ^ nat E)" using absp bot Eint by simp
    then have "p = of_int (2 ^ nat E) \<or> p = of_int (- (2 ^ nat E))"
      by (cases "p < 0") (simp_all add: abs_if)
    with assms(3) show False by blast
  qed
  have not53: "\<bar>m\<bar> \<noteq> 2 ^ 53"
  proof
    assume a: "\<bar>m\<bar> = 2 ^ 53"
    then have "\<bar>p\<bar> = of_int (2 ^ nat (E + 1))" using absp top E1int by simp
    then have "p = of_int (2 ^ nat (E + 1)) \<or> p = of_int (- (2 ^ nat (E + 1)))"
      by (cases "p < 0") (simp_all add: abs_if)
    with assms(3) show False by blast
  qed
  from mb not52 not53 have "2 ^ 52 + 1 \<le> \<bar>m\<bar>" "\<bar>m\<bar> \<le> 2 ^ 53 - 1" by simp_all
  then have "(of_int (2 ^ 52 + 1) :: rat) \<le> of_int \<bar>m\<bar>" "(of_int \<bar>m\<bar> :: rat) \<le> of_int (2 ^ 53 - 1)"
    by (simp_all only: of_int_le_iff)
  then have "(2 ^ 52 + 1) * Q \<le> of_int \<bar>m\<bar> * Q" "of_int \<bar>m\<bar> * Q \<le> (2 ^ 53 - 1) * Q"
    using Qpos by (simp_all del: of_int_abs)
  then have pb: "2 powi E + Q \<le> \<bar>p\<bar>" "\<bar>p\<bar> \<le> 2 powi (E + 1) - Q"
    unfolding absp [symmetric] top [symmetric] bot [symmetric] by (simp_all add: algebra_simps)
  define y where "y = roundCents p"
  have yp: "\<bar>y - p\<bar> \<le> 1 / 200" unfolding y_def by (rule roundCents_error)
  have "2 powi E \<le> \<bar>y\<bar>" "\<bar>y\<bar> < 2 powi (E + 1)"
    using yp pb Q64 by linarith+
  then have ey: "expo y = E" by (rule expo_unique)
  have qy: "quantum y = Q" using assms(2) by (simp add: quantum_eq ey Q_def max_def E_def)
  have "0 < \<bar>y\<bar>" using \<open>2 powi E \<le> \<bar>y\<bar>\<close> pow2_pos [of E] by linarith
  then have y0: "y \<noteq> 0" by simp
  have "y / Q - of_int m = (y - p) / Q" using Qpos by (simp add: p field_simps)
  then have "\<bar>y / Q - of_int m\<bar> = \<bar>y - p\<bar> / Q" using Qpos by (simp add: abs_divide)
  also have "\<dots> \<le> (1 / 200) / Q" using yp Qpos by (intro divide_right_mono) simp_all
  also have "\<dots> \<le> (1 / 200) / (1 / 64)" using Q64 Qpos by (intro divide_left_mono) simp_all
  also have "\<dots> < 1 / 2" by simp
  finally have "roundHalfEven (y / Q) = m" by (rule roundHalfEven_near)
  then have "of_int (roundHalfEven (y / quantum y)) * quantum y = p" by (simp add: qy p)
  then have "roundDouble y = Fin p" using pd(2) y0 by (simp add: roundDouble_eq Let_def)
  then show ?thesis by (simp only: y_def)
qed

lemma roundCents_double:
  assumes "roundDouble (roundCents q) = Fin p"
  shows "roundDouble (roundCents p) = Fin p"
proof (cases "\<exists>k. p = of_int k")
  case True
  then show ?thesis using roundDouble_idem [OF assms] by auto
next
  case False
  obtain k where k: "roundCents q = of_int k / 100" using roundCents_hundredth by blast
  have d0: "roundCents q \<noteq> 0"
  proof
    assume "roundCents q = 0"
    with assms have "p = of_int 0" by simp
    with False show False by blast
  qed
  show ?thesis
  proof (cases "expo (roundCents q) \<le> 45")
    case True
    from roundCents_near_double [OF assms k True] show ?thesis using assms by simp
  next
    case False
    then have "46 \<le> expo (roundCents q)" by simp
    from roundCents_far_double [OF assms this \<open>\<nexists>k. p = of_int k\<close> d0] show ?thesis .
  qed
qed

lemma toFixed2_fixed:
  assumes "toFixed2 (Fin q) = Fin p"
  shows "toFixed2 (Fin p) = Fin p"
proof (cases "10 ^ 21 \<le> \<bar>q\<bar>")
  case True
  then have r: "roundDouble q = Fin p" using assms by simp
  have "(2::rat) powi 52 \<le> 10 ^ 21" by simp
  with True have "2 powi 52 \<le> \<bar>q\<bar>" by linarith
  from roundDouble_integer [OF r this] obtain k where "p = of_int k" by blast
  then show ?thesis using roundDouble_idem [OF r] by auto
next
  case False
  then have r: "roundDouble (roundCents q) = Fin p" using assms by simp
  show ?thesis using roundCents_double [OF r] roundDouble_idem [OF r] by simp
qed

lemma toFixed2_idem: "toFixed2 (toFixed2 x) = toFixed2 x"
proof (cases x)
  case (Fin q)
  show ?thesis
  proof (cases "toFixed2 (Fin q)")
    case (Fin p)
    then show ?thesis using toFixed2_fixed [OF Fin] \<open>x = Fin q\<close> by simp
  qed (simp_all add: \<open>x = Fin q\<close>)
qed simp_all

lemma toFixed2_is_double:
  assumes "toFixed2 (Fin q) = Fin q"
  shows "roundDouble q = Fin q"
proof (cases "10 ^ 21 \<le> \<bar>q\<bar>")
  case True
  then show ?thesis using assms by simp
next
  case False
  then have "roundDouble (roundCents q) = Fin q" using assms by simp
  then show ?thesis by (rule roundDouble_idem)
qed

subsection \<open>Examples\<close>

text \<open>The doubles nearest \<open>0.1\<close>, \<open>-10.01\<close> and \<open>2^53 + 1\<close>; \<open>2.675\<close>, whose double lies
  below it, is printed as \<open>2.67\<close>; and the mean of \<open>12\<close> and \<open>10.01\<close>, the double
  \<open>11.004999999999999\<close>, is printed as \<open>11.00\<close>.\<close>

lemma roundDouble_examples:
  "roundDouble (1 / 10) = Fin (3602879701896397 / 36028797018963968) \<and>
   roundDouble (- 1001 / 100) = Fin (- 5635129033747333 / 562949953421312) \<and>
   roundDouble 9007199254740993 = Fin 9007199254740992"
  by code_simp

lemma toFixed2_examples:
  "toFixed2 (roundDouble (2675 / 1000)) = roundDouble (267 / 100) \<and>
   js_div (js_add (js_add (Fin 0) (Fin 12)) (roundDouble (1001 / 100))) (Fin 2) =
     Fin (6195264237401538 / 562949953421312) \<and>
   toFixed2 (Fin (6195264237401538 / 562949953421312)) = Fin 11"
  by code_simp

section \<open>Slicing and sorting\<close>

lemma length_slice_neg: "0 < n \<Longrightarrow> int (length (slice (- n) xs)) \<le> n"
  by (auto simp: slice_def Let_def)

lemma sorted_slice: "sorted (map f xs) \<Longrightarrow> sorted (map f (slice k xs))"
  by (simp add: slice_def Let_def drop_map [symmetric] sorted_wrt_drop)

lemma slice_short: "0 < n \<Longrightarrow> int (length xs) \<le> n \<Longrightarrow> slice (- n) xs = xs"
  by (simp add: slice_def Let_def)

lemma getDataLimit_pos: "0 < getDataLimitForInterval i"
  by (cases i) simp_all

lemma aggregateBuckets_sorted:
  "aggregateBuckets tz cd i = Inr out \<Longrightarrow> sorted (map timestamp out)"
  by (auto simp: aggregateBuckets_def Let_def split: sum.splits)

lemma aggregate_sorted:
  "sorted (map timestamp cd) \<Longrightarrow> aggregateDataByInterval tz cd i = Inr out \<Longrightarrow>
   sorted (map timestamp out)"
  by (auto simp: aggregateDataByInterval_def aggregateBuckets_sorted split: if_splits)

lemma sortAggregateLimit_sorted:
  "sortAggregateLimit tz cd i = Inr out \<Longrightarrow> sorted (map timestamp out)"
  by (auto simp: sortAggregateLimit_def sorted_slice split: sum.splits
      dest!: aggregate_sorted [rotated])

lemma sortAggregateLimit_length:
  "sortAggregateLimit tz cd i = Inr out \<Longrightarrow> int (length out) \<le> getDataLimitForInterval i"
  using getDataLimit_pos [of i]
  by (auto simp: sortAggregateLimit_def split: sum.splits intro!: length_slice_neg)

text \<open>When \<^verbatim>\<open>parseJSONChartData\<close> returns computed chart data, the payload had the
  expected shape, every item was read without an exception, and the data is what the
  sort, the aggregation and the limit made of the points read.\<close>

lemma parseJSONChartData_ChartData:
  "parseJSONChartData tz now random json ticker i = ChartData out \<Longrightarrow>
   \<exists>st items cd. json = Response st items \<and> statusIsOne st \<and> parseItems i items = Inr cd \<and>
     sortAggregateLimit tz cd i = Inr out"
  by (auto simp: parseJSONChartData_def Let_def split: jsonData.splits if_splits sum.splits)

lemma parseJSONChartData_computed:
  "statusIsOne st \<Longrightarrow> parseItems i items = Inr cd \<Longrightarrow> sortAggregateLimit tz cd i = Inr out \<Longrightarrow>
   parseJSONChartData tz now random (Response st items) ticker i = ChartData out"
  by (simp add: parseJSONChartData_def)

lemma statusIsOne_1: "statusIsOne (JNum 1)"
  using roundDouble_of_int [of 1] by (simp add: statusIsOne_def)

section \<open>Date strings\<close>

lemma digitChar_digit: "digitChar d \<in> set ''0123456789''"
proof -
  have "nat (d mod 10) < length ''0123456789''" by simp
  then show ?thesis unfolding digitChar_def by (rule nth_mem)
qed

lemma digitChar_not_T: "digitChar d \<noteq> CHR ''T''"
  using digitChar_digit [of d] by auto

lemma yearString_no_T: "CHR ''T'' \<notin> set (yearString y)"
  by (auto simp: yearString_def pad4_def pad6_def digitChar_not_T [symmetric])

lemma dateString_no_T: "CHR ''T'' \<notin> set (dateString tv)"
  by (auto simp: dateString_def Let_def pad2_def yearString_no_T digitChar_not_T [symmetric]
      split: prod.splits)

text \<open>The date part of an ISO string is what \<^verbatim>\<open>split('T')[0]\<close> returns.\<close>

lemma splitT0_dateString: "splitT0 (dateString tv @ CHR ''T'' # r) = dateString tv"
  using dateString_no_T [of tv] by (auto simp: splitT0_def takeWhile_tail)

lemma splitT0_toISOString:
  "map_sum id splitT0 (toISOString (Some tv)) = Inr (dateString tv)"
  by (simp add: toISOString_def splitT0_dateString)

lemma truncToInt_of_int: "truncToInt (of_int n) = n"
  by (simp add: truncToInt_def)

lemma newDate_of_int:
  "\<bar>n\<bar> \<le> maxTime \<Longrightarrow> newDate (Fin (of_int n)) = Some n"
  by (simp add: newDate_def timeClip_def truncToInt_of_int flip: of_int_abs)

lemma newDate_None: "(newDate (Fin q) = None) = (of_int maxTime < \<bar>q\<bar>)"
  by (simp add: newDate_def timeClip_def)

lemma getIntervalKey_Day1:
  "\<bar>n\<bar> \<le> maxTime \<Longrightarrow> getIntervalKey tz (of_int n) Day1 im = Inr (dateString n)"
  by (simp add: getIntervalKey_def newDate_of_int splitT0_toISOString)

lemma half_day_div:
  assumes "(t::int) mod 86400 < 43200"
  shows "(t + 43200) div 86400 = t div 86400"
proof -
  have r: "0 \<le> t mod 86400" by simp
  have "t + 43200 = (t mod 86400 + 43200) + (t div 86400) * 86400" by simp
  then have "(t + 43200) div 86400 = ((t mod 86400 + 43200) + (t div 86400) * 86400) div 86400"
    by simp
  also have "\<dots> = t div 86400 + (t mod 86400 + 43200) div 86400"
    by (rule div_mult_self1) simp
  also have "(t mod 86400 + 43200) div 86400 = 0"
    using assms r by (intro div_pos_pos_trivial) linarith+
  finally show ?thesis by simp
qed

lemma seconds_day: "(s * 1000) div msPerDay = s div (86400::int)"
proof -
  have "(s * 1000) div (86400 * 1000) = s div (86400::int)"
    by (rule div_mult_mult2) simp
  then show ?thesis by (simp add: msPerDay_def)
qed

text \<open>Two instants twelve hours apart in the first half and the second half of one UTC
  day have the same date.\<close>

lemma same_day:
  assumes "t mod 86400 < 43200"
  shows "dateString ((t + 43200) * 1000) = dateString (t * 1000)"
  using half_day_div [OF assms] by (simp only: dateString_def seconds_day)

lemma parseItem_Day1_num:
  assumes "\<bar>t * 1000\<bar> \<le> maxTime"
  shows "parseItem Day1 (Arr [JNum (of_int t), JNum p, v]) =
     Inr (Some \<lparr>date = dateString (t * 1000), price = orZero (roundDouble p),
                volume = (case parseInt v of None \<Rightarrow> 0 | Some n \<Rightarrow> n),
                timestamp = of_int (t * 1000)\<rparr>)"
proof -
  have "\<bar>t\<bar> \<le> 2 ^ 53" and "\<bar>t * 1000\<bar> \<le> 2 ^ 53"
    using assms by (simp_all add: maxTime_def abs_mult)
  then have "roundDouble (of_int t) = Fin (of_int t)"
    and "roundDouble (of_int (t * 1000)) = Fin (of_int (t * 1000))"
    by (simp_all only: roundDouble_of_int)
  then have "js_mul (toNumber (JNum (of_int t))) (Fin 1000) = Fin (of_int (t * 1000))" by simp
  then show ?thesis
    using newDate_of_int [OF assms]
    by (simp add: Let_def toISOString_def splitT0_dateString finValue_def
        del: of_int_mult js_mul.simps)
qed

section \<open>The grouping loop\<close>

subsection \<open>One step of the grouping loop\<close>

lemma map_of_addPoint:
  "map_of (addPoint m k p) k' =
     (if k' = k then
        Some (let b0 = (case map_of m k of
                          None \<Rightarrow> \<lparr>key = k, prices = [], volumes = [], ivTimestamp = timestamp p\<rparr>
                        | Some b \<Rightarrow> b)
              in \<lparr>key = key b0, prices = prices b0 @ [price p], volumes = volumes b0 @ [volume p],
                  ivTimestamp = (if timestamp p < ivTimestamp b0 then timestamp p else ivTimestamp b0)\<rparr>)
      else map_of m k')"
  by (simp add: addPoint_def Let_def update_conv')

lemma keys_addPoint: "fst ` set (addPoint m k p) = insert k (fst ` set m)"
  by (simp add: addPoint_def Let_def dom_update)

lemma distinct_addPoint: "distinct (map fst m) \<Longrightarrow> distinct (map fst (addPoint m k p))"
  by (simp add: addPoint_def Let_def distinct_update)

lemma update_fresh: "k \<notin> fst ` set al \<Longrightarrow> AList.update k v al = al @ [(k, v)]"
  by (induction al) auto

lemma addPoint_fresh:
  "k \<notin> fst ` set m \<Longrightarrow>
   addPoint m k p =
     m @ [(k, \<lparr>key = k, prices = [price p], volumes = [volume p], ivTimestamp = timestamp p\<rparr>)]"
  by (simp add: addPoint_def Let_def update_fresh map_of_eq_None_iff [THEN iffD2])

lemma sum_update:
  fixes f :: "'v \<Rightarrow> int"
  shows "(\<Sum>(k', b)\<leftarrow>AList.update k v al. f b) =
         (\<Sum>(k', b)\<leftarrow>al. f b) - (case map_of al k of None \<Rightarrow> 0 | Some b \<Rightarrow> f b) + f v"
  by (induction al) auto

lemma sum_addPoint:
  "(\<Sum>(k', b)\<leftarrow>addPoint m k p. sum_list (volumes b)) =
   (\<Sum>(k', b)\<leftarrow>m. sum_list (volumes b)) + volume p"
  by (simp add: addPoint_def Let_def sum_update split: option.splits)

subsection \<open>The grouping loop\<close>

lemma groupData_keys_defined:
  "groupData tz i im m ps = Inr m' \<Longrightarrow>
   \<forall>p \<in> set ps. \<exists>k. getIntervalKey tz (timestamp p) i im = Inr k"
  by (induction ps arbitrary: m) (auto split: sum.splits)

lemma groupData_distinct:
  "groupData tz i im m ps = Inr m' \<Longrightarrow> distinct (map fst m) \<Longrightarrow> distinct (map fst m')"
  by (induction ps arbitrary: m) (auto split: sum.splits simp: distinct_addPoint)

lemma groupData_keys:
  "groupData tz i im m ps = Inr m' \<Longrightarrow>
   fst ` set m' = fst ` set m \<union> {k. \<exists>p \<in> set ps. getIntervalKey tz (timestamp p) i im = Inr k}"
proof (induction ps arbitrary: m)
  case Nil
  then show ?case by simp
next
  case (Cons p ps)
  then obtain k where k: "getIntervalKey tz (timestamp p) i im = Inr k"
    and g: "groupData tz i im (addPoint m k p) ps = Inr m'"
    by (auto split: sum.splits)
  from Cons.IH [OF g] k show ?case by (auto simp: keys_addPoint)
qed

lemma groupData_volumes:
  "groupData tz i im m ps = Inr m' \<Longrightarrow> map_of m' k = Some b' \<Longrightarrow>
   volumes b' = (case map_of m k of None \<Rightarrow> [] | Some b \<Rightarrow> volumes b) @
     map volume (filter (\<lambda>p. getIntervalKey tz (timestamp p) i im = Inr k) ps)"
proof (induction ps arbitrary: m)
  case Nil
  then show ?case by simp
next
  case (Cons p ps)
  then obtain k0 where k0: "getIntervalKey tz (timestamp p) i im = Inr k0"
    and g: "groupData tz i im (addPoint m k0 p) ps = Inr m'"
    by (auto split: sum.splits)
  from Cons.IH [OF g Cons.prems(2)] k0 show ?case
    by (auto simp: map_of_addPoint Let_def split: option.splits)
qed

lemma groupData_sum:
  "groupData tz i im m ps = Inr m' \<Longrightarrow>
   (\<Sum>(k, b)\<leftarrow>m'. sum_list (volumes b)) =
   (\<Sum>(k, b)\<leftarrow>m. sum_list (volumes b)) + sum_list (map volume ps)"
proof (induction ps arbitrary: m)
  case Nil
  then show ?case by simp
next
  case (Cons p ps)
  then obtain k0 where g: "groupData tz i im (addPoint m k0 p) ps = Inr m'"
    by (auto split: sum.splits)
  from Cons.IH [OF g] show ?case by (simp add: sum_addPoint)
qed

text \<open>The timestamp of an entry is the timestamp of one of its points, so its key is
  the entry's key.\<close>

lemma groupData_timestamp_key:
  "groupData tz i im m ps = Inr m' \<Longrightarrow>
   (\<And>k b. map_of m k = Some b \<Longrightarrow> getIntervalKey tz (ivTimestamp b) i im = Inr k) \<Longrightarrow>
   map_of m' k = Some b' \<Longrightarrow> getIntervalKey tz (ivTimestamp b') i im = Inr k"
proof (induction ps arbitrary: m)
  case Nil
  then show ?case by simp
next
  case (Cons p ps)
  then obtain k0 where k0: "getIntervalKey tz (timestamp p) i im = Inr k0"
    and g: "groupData tz i im (addPoint m k0 p) ps = Inr m'"
    by (auto split: sum.splits)
  have "getIntervalKey tz (ivTimestamp b) i im = Inr k1" if "map_of (addPoint m k0 p) k1 = Some b" for k1 b
    using that k0 Cons.prems(2)
    by (auto simp: map_of_addPoint Let_def split: if_splits option.splits)
  from Cons.IH [OF g this Cons.prems(3)] show ?case .
qed

text \<open>Points of pairwise distinct keys, none of them in the map yet, each open an entry
  of their own, in their order.\<close>

lemma groupData_fresh:
  "\<forall>p \<in> set ps. \<exists>k. getIntervalKey tz (timestamp p) i im = Inr k \<and> k \<notin> fst ` set m \<Longrightarrow>
   distinct (map (\<lambda>p. getIntervalKey tz (timestamp p) i im) ps) \<Longrightarrow>
   groupData tz i im m ps =
     Inr (m @ map (\<lambda>p. (projr (getIntervalKey tz (timestamp p) i im),
                         \<lparr>key = projr (getIntervalKey tz (timestamp p) i im), prices = [price p],
                          volumes = [volume p], ivTimestamp = timestamp p\<rparr>)) ps)"
proof (induction ps arbitrary: m)
  case Nil
  then show ?case by simp
next
  case (Cons p ps)
  then obtain k where k: "getIntervalKey tz (timestamp p) i im = Inr k" and fresh: "k \<notin> fst ` set m"
    by auto
  let ?m1 = "m @ [(k, \<lparr>key = k, prices = [price p], volumes = [volume p], ivTimestamp = timestamp p\<rparr>)]"
  have "\<forall>q \<in> set ps. \<exists>k'. getIntervalKey tz (timestamp q) i im = Inr k' \<and> k' \<notin> fst ` set ?m1"
    using Cons.prems k by force
  moreover have "distinct (map (\<lambda>p. getIntervalKey tz (timestamp p) i im) ps)"
    using Cons.prems by simp
  ultimately have "groupData tz i im ?m1 ps =
     Inr (?m1 @ map (\<lambda>p. (projr (getIntervalKey tz (timestamp p) i im),
                         \<lparr>key = projr (getIntervalKey tz (timestamp p) i im), prices = [price p],
                          volumes = [volume p], ivTimestamp = timestamp p\<rparr>)) ps)"
    by (rule Cons.IH)
  then show ?case using k fresh by (simp add: addPoint_fresh)
qed

subsection \<open>From entries to points\<close>

lemma mapE_Inr: "mapE f xs = Inr ys \<Longrightarrow> list_all2 (\<lambda>x y. f x = Inr y) xs ys"
  by (induction xs arbitrary: ys) (auto split: sum.splits)

lemma mapE_map: "\<forall>x \<in> set xs. f x = Inr (g x) \<Longrightarrow> mapE f xs = Inr (map g xs)"
  by (induction xs) auto

lemma foldl_plus_sum_list: "foldl (+) (a::int) xs = a + sum_list xs"
  by (induction xs arbitrary: a) auto

lemma toChartPoint_Inr:
  assumes "toChartPoint i b = Inr q"
  shows "volume q = sum_list (volumes b)" and "timestamp q = ivTimestamp b"
    and "price q = toFixed2 (js_div (foldl js_add (Fin 0) (prices b))
                                    (Fin (of_nat (length (prices b)))))"
    and "\<exists>isoStr. toISOString (newDate (Fin (ivTimestamp b))) = Inr isoStr \<and>
           date q = (if i = Day1 then splitT0 isoStr else isoStr)"
  using assms by (auto simp: toChartPoint_def Let_def foldl_plus_sum_list split: sum.splits)

lemma aggregateBuckets_Inr:
  "aggregateBuckets tz cd i = Inr out \<Longrightarrow>
   \<exists>m agg. groupData tz i (getIntervalMinutes i) [] cd = Inr m \<and>
     mapE (toChartPoint i) (map snd m) = Inr agg \<and> out = sort_key timestamp agg"
  by (auto simp: aggregateBuckets_def Let_def split: sum.splits)

text \<open>What the aggregation makes of the points, before its final sort: one point per
  key, carrying that key, the summed volume of the key's points, and a price and a date
  that the aggregation would give it again.\<close>

lemma aggregated_points:
  assumes g: "groupData tz i im [] cd = Inr m"
    and e: "mapE (toChartPoint i) (map snd m) = Inr agg"
  shows "map (\<lambda>q. getIntervalKey tz (timestamp q) i im) agg = map (\<lambda>kb. Inr (fst kb)) m"
    and "map volume agg =
         map (\<lambda>kb. sum_list (map volume
                (filter (\<lambda>p. getIntervalKey tz (timestamp p) i im = Inr (fst kb)) cd))) m"
    and "distinct (map fst m)"
    and "fst ` set m = {k. \<exists>p \<in> set cd. getIntervalKey tz (timestamp p) i im = Inr k}"
    and "sum_list (map volume agg) = sum_list (map volume cd)"
proof -
  have d: "distinct (map fst m)" using groupData_distinct [OF g] by simp
  have la: "list_all2 (\<lambda>kb q. toChartPoint i (snd kb) = Inr q) m agg"
    using mapE_Inr [OF e] by (simp add: list_all2_map1)
  then have len: "length agg = length m" by (simp add: list_all2_lengthD)
  have nth: "toChartPoint i (snd (m ! j)) = Inr (agg ! j)" if "j < length m" for j
    using la that by (simp add: list_all2_conv_all_nth)
  have mo: "map_of m (fst (m ! j)) = Some (snd (m ! j))" if "j < length m" for j
    using d that by (simp add: map_of_is_SomeI)
  show "distinct (map fst m)" by (rule d)
  show "fst ` set m = {k. \<exists>p \<in> set cd. getIntervalKey tz (timestamp p) i im = Inr k}"
    using groupData_keys [OF g] by simp
  show "map (\<lambda>q. getIntervalKey tz (timestamp q) i im) agg = map (\<lambda>kb. Inr (fst kb)) m"
  proof (rule nth_equalityI)
    show "length (map (\<lambda>q. getIntervalKey tz (timestamp q) i im) agg) =
          length (map (\<lambda>kb. Inr (fst kb)) m)" using len by simp
  next
    fix j assume "j < length (map (\<lambda>q. getIntervalKey tz (timestamp q) i im) agg)"
    then have j: "j < length m" using len by simp
    have "getIntervalKey tz (ivTimestamp (snd (m ! j))) i im = Inr (fst (m ! j))"
      by (rule groupData_timestamp_key [OF g _ mo [OF j]]) simp
    then show "map (\<lambda>q. getIntervalKey tz (timestamp q) i im) agg ! j =
               map (\<lambda>kb. Inr (fst kb)) m ! j"
      using j len toChartPoint_Inr(2) [OF nth [OF j]] by simp
  qed
  show "map volume agg =
         map (\<lambda>kb. sum_list (map volume
                (filter (\<lambda>p. getIntervalKey tz (timestamp p) i im = Inr (fst kb)) cd))) m"
  proof (rule nth_equalityI)
    show "length (map volume agg) =
          length (map (\<lambda>kb. sum_list (map volume
                (filter (\<lambda>p. getIntervalKey tz (timestamp p) i im = Inr (fst kb)) cd))) m)"
      using len by simp
  next
    fix j assume "j < length (map volume agg)"
    then have j: "j < length m" using len by simp
    have "volumes (snd (m ! j)) =
          map volume (filter (\<lambda>p. getIntervalKey tz (timestamp p) i im = Inr (fst (m ! j))) cd)"
      using groupData_volumes [OF g mo [OF j]] by simp
    then show "map volume agg ! j =
          map (\<lambda>kb. sum_list (map volume
                (filter (\<lambda>p. getIntervalKey tz (timestamp p) i im = Inr (fst kb)) cd))) m ! j"
      using j len toChartPoint_Inr(1) [OF nth [OF j]] by simp
  qed
  have "map volume agg = map (\<lambda>kb. sum_list (volumes (snd kb))) m"
    using len toChartPoint_Inr(1) [OF nth] by (intro nth_equalityI) simp_all
  then have "sum_list (map volume agg) = (\<Sum>(k, b)\<leftarrow>m. sum_list (volumes b))"
    by (simp add: case_prod_unfold)
  then show "sum_list (map volume agg) = sum_list (map volume cd)"
    using groupData_sum [OF g] by simp
qed

section \<open>Points the aggregation leaves alone\<close>

text \<open>The mean of one price that \<^verbatim>\<open>toFixed(2)\<close> leaves alone, hence a double, is that
  price.\<close>

lemma js_avg_single:
  assumes "toFixed2 x = x"
  shows "js_div (js_add (Fin 0) x) (Fin (of_nat (length [y]))) = x"
proof (cases x)
  case (Fin q)
  with assms have "roundDouble q = Fin q" by (simp only: toFixed2_is_double)
  then show ?thesis using Fin by simp
qed (simp_all add: signed_inf_def)

lemma toChartPoint_single:
  fixes q :: ChartDataPoint
  assumes "toISOString (newDate (Fin (timestamp q))) = Inr s"
    and "date q = (if i = Day1 then splitT0 s else s)"
    and "toFixed2 (price q) = price q"
  shows "toChartPoint i \<lparr>key = k, prices = [price q], volumes = [volume q],
                          ivTimestamp = timestamp q\<rparr> = Inr q"
  using assms js_avg_single [OF assms(3), of "price q"]
  by (simp add: toChartPoint_def Let_def del: js_div.simps js_add.simps toFixed2.simps)

lemma mapE_map_id: "\<forall>p \<in> set ps. f (h p) = Inr p \<Longrightarrow> mapE f (map h ps) = Inr ps"
  by (induction ps) auto

text \<open>Points that are sorted, have keys of their own and carry a price and a date that
  the aggregation would give them are left as they are by the aggregation.\<close>

lemma aggregateBuckets_fixed:
  fixes ps :: "ChartDataPoint list"
  assumes srt: "sorted (map timestamp ps)"
    and dist: "distinct (map (\<lambda>p. getIntervalKey tz (timestamp p) i (getIntervalMinutes i)) ps)"
    and keys: "\<forall>p \<in> set ps. \<exists>k. getIntervalKey tz (timestamp p) i (getIntervalMinutes i) = Inr k"
    and dates: "\<forall>p \<in> set ps. \<exists>s. toISOString (newDate (Fin (timestamp p))) = Inr s \<and>
                  date p = (if i = Day1 then splitT0 s else s)"
    and rounded: "\<forall>p \<in> set ps. toFixed2 (price p) = price p"
  shows "aggregateBuckets tz ps i = Inr ps"
proof -
  let ?K = "\<lambda>p::ChartDataPoint. getIntervalKey tz (timestamp p) i (getIntervalMinutes i)"
  let ?single = "\<lambda>p::ChartDataPoint. \<lparr>key = projr (?K p), prices = [price p], volumes = [volume p],
                       ivTimestamp = timestamp p\<rparr>"
  have "groupData tz i (getIntervalMinutes i) [] ps = Inr ([] @ map (\<lambda>p. (projr (?K p), ?single p)) ps)"
    by (rule groupData_fresh) (use keys dist in auto)
  then have g: "groupData tz i (getIntervalMinutes i) [] ps = Inr (map (\<lambda>p. (projr (?K p), ?single p)) ps)"
    by simp
  have "mapE (toChartPoint i) (map ?single ps) = Inr ps"
  proof (rule mapE_map_id, rule ballI)
    fix p assume p: "p \<in> set ps"
    from dates p obtain s where "toISOString (newDate (Fin (timestamp p))) = Inr s"
      and "date p = (if i = Day1 then splitT0 s else s)" by blast
    moreover from rounded p have "toFixed2 (price p) = price p" by simp
    ultimately show "toChartPoint i (?single p) = Inr p" by (rule toChartPoint_single)
  qed
  then have e: "mapE (toChartPoint i) (map snd (map (\<lambda>p. (projr (?K p), ?single p)) ps)) = Inr ps"
    by (simp add: comp_def)
  show ?thesis
    unfolding aggregateBuckets_def Let_def g sum.case e
    by (simp add: sort_key_id_if_sorted [OF srt])
qed

lemma set_slice: "set (slice k xs) \<subseteq> set xs"
  by (simp add: slice_def Let_def set_drop_subset)

lemma distinct_map_slice: "distinct (map f xs) \<Longrightarrow> distinct (map f (slice k xs))"
  by (simp add: slice_def Let_def drop_map [symmetric])

text \<open>The output of the aggregation meets the conditions of \<open>aggregateBuckets_fixed\<close>.\<close>

lemma aggregateBuckets_output:
  assumes "aggregateBuckets tz cd i = Inr out"
  shows "sorted (map timestamp out)"
    and "distinct (map (\<lambda>p. getIntervalKey tz (timestamp p) i (getIntervalMinutes i)) out)"
    and "\<forall>p \<in> set out. \<exists>k. getIntervalKey tz (timestamp p) i (getIntervalMinutes i) = Inr k"
    and "\<forall>p \<in> set out. \<exists>s. toISOString (newDate (Fin (timestamp p))) = Inr s \<and>
           date p = (if i = Day1 then splitT0 s else s)"
    and "\<forall>p \<in> set out. toFixed2 (price p) = price p"
proof -
  let ?K = "\<lambda>p::ChartDataPoint. getIntervalKey tz (timestamp p) i (getIntervalMinutes i)"
  from assms obtain m agg where g: "groupData tz i (getIntervalMinutes i) [] cd = Inr m"
    and e: "mapE (toChartPoint i) (map snd m) = Inr agg"
    and out: "out = sort_key timestamp agg"
    by (auto dest: aggregateBuckets_Inr)
  note ap = aggregated_points [OF g e]
  show "sorted (map timestamp out)" by (simp add: out)
  have "distinct (map (\<lambda>kb. (Inr (fst kb) :: error + string)) m)"
    using ap(3) by (simp add: distinct_map inj_on_def)
  then have "distinct (map ?K agg)" using ap(1) by simp
  then show "distinct (map ?K out)" by (simp add: out distinct_map)
  have "set (map ?K agg) = set (map (\<lambda>kb. Inr (fst kb)) m)" using ap(1) by simp
  then show "\<forall>p \<in> set out. \<exists>k. ?K p = Inr k" by (auto simp: out)
  have from_entry: "\<exists>b. toChartPoint i b = Inr q" if "q \<in> set agg" for q
  proof -
    from that obtain j where "j < length agg" and "q = agg ! j" by (auto simp: in_set_conv_nth)
    with mapE_Inr [OF e] show ?thesis by (auto simp: list_all2_conv_all_nth)
  qed
  show "\<forall>p \<in> set out. \<exists>s. toISOString (newDate (Fin (timestamp p))) = Inr s \<and>
           date p = (if i = Day1 then splitT0 s else s)"
  proof
    fix p assume "p \<in> set out"
    then obtain b where b: "toChartPoint i b = Inr p" using from_entry by (auto simp: out)
    from toChartPoint_Inr(4) [OF b] toChartPoint_Inr(2) [OF b]
    show "\<exists>s. toISOString (newDate (Fin (timestamp p))) = Inr s \<and>
           date p = (if i = Day1 then splitT0 s else s)" by simp
  qed
  show "\<forall>p \<in> set out. toFixed2 (price p) = price p"
  proof
    fix p assume "p \<in> set out"
    then obtain b where b: "toChartPoint i b = Inr p" using from_entry by (auto simp: out)
    show "toFixed2 (price p) = price p"
      unfolding toChartPoint_Inr(3) [OF b] by (rule toFixed2_idem)
  qed
qed

section \<open>When chart data is computed\<close>

lemma truncToInt_bound: "\<bar>q\<bar> \<le> of_int n \<Longrightarrow> \<bar>truncToInt q\<bar> \<le> n"
  unfolding truncToInt_def by (auto simp: floor_le_iff le_floor_iff abs_le_iff) linarith+

lemma newDate_Some: "newDate (Fin q) = Some tv \<Longrightarrow> \<bar>tv\<bar> \<le> maxTime"
  by (auto simp: newDate_def timeClip_def truncToInt_bound split: if_splits)

lemma minute_of_hour: "(a::int) div 60000 mod 60 = a mod 3600000 div 60000"
proof -
  have "a mod (60000 * 60) = 60000 * (a div 60000 mod 60) + a mod 60000"
    by (rule zmod_zmult2_eq) simp
  then have "a mod 3600000 div 60000 = (60000 * (a div 60000 mod 60) + a mod 60000) div 60000"
    by simp
  also have "\<dots> = a div 60000 mod 60"
    by simp
  finally show ?thesis by simp
qed

lemma round_down: "0 < (im::int) \<Longrightarrow> 0 \<le> mi \<Longrightarrow> mi div im * im \<le> mi \<and> 0 \<le> mi div im * im"
proof -
  assume im: "0 < im" and mi: "0 \<le> mi"
  have "mi div im * im + mi mod im = mi" by simp
  moreover have "0 \<le> mi mod im" using im by simp
  ultimately have "mi div im * im \<le> mi" by linarith
  moreover have "0 \<le> mi div im" using im mi by (simp add: pos_imp_zdiv_nonneg_iff)
  ultimately show ?thesis using im by simp
qed

lemma setMinutes_valid:
  assumes tz: "tz mod 3600000 = 0" and tv: "\<bar>tv\<bar> \<le> maxTime" and im: "0 < im"
  shows "\<exists>u. setMinutes tz tv (getMinutes tz tv div im * im) = Some u"
proof -
  define r where "r = tv mod 3600000"
  define h where "h = tv div 3600000"
  define mi where "mi = r div 60000"
  define m where "m = mi div im * im"
  have local: "(tv + tz) mod 3600000 = r"
    using tz unfolding r_def by fastforce
  have gm: "getMinutes tz tv = mi"
    by (simp add: getMinutes_def minute_of_hour local mi_def)
  have r: "0 \<le> r" "r < 3600000" by (simp_all add: r_def)
  have tvh: "tv = h * 3600000 + r" by (simp add: h_def r_def)
  have mi0: "0 \<le> mi" using r by (simp add: mi_def pos_imp_zdiv_nonneg_iff)
  have mir: "mi * 60000 \<le> r" using r unfolding mi_def by linarith
  have m_le: "m \<le> mi" and m0: "0 \<le> m"
    using round_down [OF im mi0] by (simp_all add: m_def)
  have "- 2400000000 \<le> h"
  proof -
    have "(- maxTime) div 3600000 \<le> tv div 3600000"
      using tv by (intro zdiv_mono1) auto
    then show ?thesis by (simp add: h_def maxTime_def)
  qed
  then have lo: "- maxTime \<le> h * 3600000 + m * 60000"
    using m0 by (simp add: maxTime_def)
  have hi: "h * 3600000 + m * 60000 \<le> maxTime"
    using tv tvh m_le mir by (simp add: maxTime_def) 
  have "tv + tz - r + m * 60000 - tz = h * 3600000 + m * 60000"
    using tvh by simp
  then have "setMinutes tz tv m = timeClip (Fin (of_int (h * 3600000 + m * 60000)))"
    unfolding setMinutes_def Let_def local by (simp only:)
  also have "\<dots> = Some (h * 3600000 + m * 60000)"
    using lo hi unfolding timeClip_def
    by (simp add: truncToInt_of_int abs_le_iff del: of_int_add of_int_mult flip: of_int_abs)
  finally show ?thesis using gm by (simp add: m_def)
qed

lemma getIntervalKey_defined:
  assumes "tz mod 3600000 = 0" and "newDate (Fin ts) = Some tv"
  shows "\<exists>k. getIntervalKey tz ts i (getIntervalMinutes i) = Inr k"
proof (cases "i = Day1")
  case True
  with assms show ?thesis by (simp add: getIntervalKey_def toISOString_def)
next
  case False
  have "0 < getIntervalMinutes i" by (cases i) simp_all
  from setMinutes_valid [OF assms(1) newDate_Some [OF assms(2)] this]
  show ?thesis using False assms(2) by (auto simp: getIntervalKey_def Let_def toISOString_def)
qed

lemma getIntervalKey_Inr_newDate:
  "getIntervalKey tz ts i im = Inr k \<Longrightarrow> \<exists>tv. newDate (Fin ts) = Some tv"
  by (auto simp: getIntervalKey_def split: option.splits)

lemma groupData_total:
  "\<forall>p \<in> set ps. \<exists>k. getIntervalKey tz (timestamp p) i im = Inr k \<Longrightarrow>
   \<exists>m'. groupData tz i im m ps = Inr m'"
  by (induction ps arbitrary: m) auto

lemma mapE_total: "\<forall>x \<in> set xs. \<exists>y. f x = Inr y \<Longrightarrow> \<exists>ys. mapE f xs = Inr ys"
  by (induction xs) auto

lemma toChartPoint_total:
  "newDate (Fin (ivTimestamp b)) = Some tv \<Longrightarrow> \<exists>q. toChartPoint i b = Inr q"
  by (simp add: toChartPoint_def Let_def toISOString_def)

lemma aggregateBuckets_total:
  assumes "\<forall>p \<in> set cd. \<exists>k. getIntervalKey tz (timestamp p) i (getIntervalMinutes i) = Inr k"
  shows "\<exists>out. aggregateBuckets tz cd i = Inr out"
proof -
  from groupData_total [OF assms] obtain m
    where g: "groupData tz i (getIntervalMinutes i) [] cd = Inr m" by blast
  have d: "distinct (map fst m)" using groupData_distinct [OF g] by simp
  have "\<exists>q. toChartPoint i b = Inr q" if "b \<in> set (map snd m)" for b
  proof -
    from that obtain k where "(k, b) \<in> set m" by auto
    with d have "map_of m k = Some b" by (simp add: map_of_is_SomeI)
    then have "getIntervalKey tz (ivTimestamp b) i (getIntervalMinutes i) = Inr k"
      by (rule groupData_timestamp_key [OF g, rotated]) simp
    then show ?thesis by (auto dest!: getIntervalKey_Inr_newDate intro: toChartPoint_total)
  qed
  then obtain agg where "mapE (toChartPoint i) (map snd m) = Inr agg"
    using mapE_total [of "map snd m" "toChartPoint i"] by blast
  with g show ?thesis by (simp add: aggregateBuckets_def)
qed

text \<open>The loop body throws exactly when the tuple has three fields or more and its first
  field, times 1000, is not a time value.\<close>

lemma parseItem_throws:
  "parseItem i x = Inl e \<longleftrightarrow>
   e = RangeError \<and> (\<exists>f0 f1 f2 fs. x = Arr (f0 # f1 # f2 # fs) \<and>
      newDate (js_mul (toNumber f0) (Fin 1000)) = None)"
  by (cases "(i, x)" rule: parseItem.cases)
    (auto simp: Let_def toISOString_def split: option.splits)

lemma parseItem_timestamp:
  "parseItem i x = Inr (Some p) \<Longrightarrow> \<exists>tv. newDate (Fin (timestamp p)) = Some tv"
  by (cases "(i, x)" rule: parseItem.cases)
    (auto simp: Let_def toISOString_def newDate_def timeClip_def finValue_def
      split: option.splits number.splits if_splits)

lemma parseItems_timestamps:
  "parseItems i items = Inr cd \<Longrightarrow> \<forall>p \<in> set cd. \<exists>tv. newDate (Fin (timestamp p)) = Some tv"
  by (induction items arbitrary: cd)
    (auto split: sum.splits option.splits dest: parseItem_timestamp)

lemma parseItems_total:
  "\<forall>x \<in> set items. \<exists>r. parseItem i x = Inr r \<Longrightarrow> \<exists>cd. parseItems i items = Inr cd"
  by (induction items) auto

text \<open>
  On a host whose offset from UTC is a whole number of hours, a payload of the expected
  shape, none of whose items makes the loop body throw, always yields computed chart
  data: sorting, aggregating and limiting never throw on the points read.
\<close>

lemma chart_data_returned:
  assumes tz: "tz mod 3600000 = 0"
    and items: "\<forall>x \<in> set items. \<exists>r. parseItem interval x = Inr r"
  shows "\<exists>out. parseJSONChartData tz now random (Response (JNum 1) items) ticker interval =
           ChartData out"
proof -
  from parseItems_total [OF items] obtain cd where cd: "parseItems interval items = Inr cd"
    by blast
  have "\<forall>p \<in> set (sort_key timestamp cd).
          \<exists>k. getIntervalKey tz (timestamp p) interval (getIntervalMinutes interval) = Inr k"
    using parseItems_timestamps [OF cd] getIntervalKey_defined [OF tz] by fastforce
  from aggregateBuckets_total [OF this]
  have "\<exists>agg. aggregateDataByInterval tz (sort_key timestamp cd) interval = Inr agg"
    by (simp add: aggregateDataByInterval_def)
  then obtain agg where "aggregateDataByInterval tz (sort_key timestamp cd) interval = Inr agg"
    by blast
  then show ?thesis
    by (simp add: parseJSONChartData_def statusIsOne_1 cd sortAggregateLimit_def)
qed

section \<open>The synthetic series\<close>

declare mockLoop.simps [simp del]

lemma mockLoop_stop:
  "i < 0 \<Longrightarrow> mockLoop tz today random interval im i bp calls data = Inr data"
  by (subst mockLoop.simps) simp

text \<open>The loop runs for \<open>i\<close>, \<open>i - 1\<close>, ..., \<open>0\<close> and pushes one point in each round.\<close>

lemma mockLoop_length:
  "nat (i + 1) = n \<Longrightarrow> mockLoop tz today random interval im i bp calls data = Inr pts \<Longrightarrow>
   length pts = length data + n"
proof (induction n arbitrary: i bp calls data)
  case 0
  then have "i < 0" by simp
  with 0 show ?case by (simp add: mockLoop_stop)
next
  case (Suc n)
  then have i: "0 \<le> i" and n: "nat (i - 1 + 1) = n" by simp_all
  from Suc.prems(2) obtain bp' data'
    where "mockLoop tz today random interval im (i - 1) bp' (calls + 2) data' = Inr pts"
      and "length data' = length data + 1"
    using i by (subst (asm) mockLoop.simps) (auto simp: Let_def split: sum.splits)
  from Suc.IH [OF n this(1)] this(2) show ?case by simp
qed



text \<open>Two rounds of the loop at the 5-minute interval, from a clock at
  2023-11-14T22:13:20Z, with 0.3 drawn for the base price, 0.9 and 0.1 for the changes
  and 0.123456 and 0.999999 for the volumes.\<close>

lemma mockLoop_example:
  "mockLoop 0 1700000000000
     (\<lambda>k. [5404319552844595 / 18014398509481984, 8106479329266893 / 9007199254740992,
           8895942329546431 / 72057594037927936, 3602879701896397 / 36028797018963968,
           9007190247541737 / 9007199254740992] ! k)
     Min5 5 1 (js_add (Fin 100) (js_mul (Fin (5404319552844595 / 18014398509481984)) (Fin 50))) 1 [] =
   Inr [\<lparr>date = ''2023-11-14T22:08:20.000Z'', price = Fin (1023689305924567 / 8796093022208),
          volume = 123456, timestamp = 1699999700000\<rparr>,
        \<lparr>date = ''2023-11-14T22:13:20.000Z'', price = Fin (8090998205547807 / 70368744177664),
          volume = 999999, timestamp = 1700000000000\<rparr>]"
  by code_simp

lemma generateMockChartData_length:
  assumes "generateMockChartData tz now random interval = Inr pts"
  shows "int (length pts) = getDataLimitForInterval interval + 1"
proof -
  have "length pts = length ([] :: ChartDataPoint list) + nat (getDataLimitForInterval interval + 1)"
    by (rule mockLoop_length [OF refl]) (use assms in \<open>simp add: generateMockChartData_def\<close>)
  then show ?thesis using getDataLimit_pos [of interval] by simp
qed


text \<open>When \<^verbatim>\<open>parseJSONChartData\<close> returns the synthetic series, it has one point more than
  the limit of the interval.\<close>

lemma mock_output_length:
  assumes "parseJSONChartData tz now random json ticker interval = MockChartData pts"
  shows "int (length pts) = getDataLimitForInterval interval + 1"
proof -
  from assms have "generateMockChartData tz now random interval = Inr pts"
    by (auto simp: parseJSONChartData_def Let_def
        split: jsonData.splits if_splits sum.splits)
  then show ?thesis by (rule generateMockChartData_length)
qed


section \<open>The output cap\<close>

text \<open>The chart data computed from the payload is cut to the limit of the interval: it
  is the last points of the aggregate, as many as the limit allows.\<close>

lemma computed_output_cap:
  assumes "parseJSONChartData tz now random json ticker interval = ChartData out"
  shows "int (length out) \<le> getDataLimitForInterval interval \<and>
         getDataLimitForInterval interval = (case interval of Day1 \<Rightarrow> 30 | _ \<Rightarrow> 390)"
proof -
  from assms obtain cd where "sortAggregateLimit tz cd interval = Inr out"
    by (auto dest: parseJSONChartData_ChartData)
  then have "int (length out) \<le> getDataLimitForInterval interval"
    by (rule sortAggregateLimit_length)
  moreover have "getDataLimitForInterval interval = (case interval of Day1 \<Rightarrow> 30 | _ \<Rightarrow> 390)"
    by (cases interval) simp_all
  ultimately show ?thesis by simp
qed

lemma sortAggregateLimit_last:
  assumes "sortAggregateLimit tz cd interval = Inr out"
  shows "\<exists>agg. aggregateDataByInterval tz (sort_key timestamp cd) interval = Inr agg \<and>
           out = drop (length agg - nat (getDataLimitForInterval interval)) agg \<and>
           length out = min (length agg) (nat (getDataLimitForInterval interval))"
  using assms getDataLimit_pos [of interval]
  by (auto simp: sortAggregateLimit_def slice_def Let_def max_def nat_diff_distrib
      split: sum.splits)

text \<open>Thirty-one daily points, one per day: the thirty latest are returned.\<close>

lemma computed_output_truncated:
  "\<exists>out. parseJSONChartData 0 now random
       (Response (JNum 1)
          (map (\<lambda>k. Arr [JNum (of_int (1700006400 + 86400 * k)), JNum 10, JNum 100]) [0..30]))
       ticker Day1 = ChartData out \<and>
     map timestamp out = map (\<lambda>k. of_int ((1700006400 + 86400 * k) * 1000)) [1..30] \<and>
     length out = 30"
proof -
  let ?items = "map (\<lambda>k. Arr [JNum (of_int (1700006400 + 86400 * k)), JNum 10, JNum 100]) [0..30]"
  let ?ts = "map (\<lambda>k. of_int ((1700006400 + 86400 * k) * 1000)) [1..30] :: rat list"
  have run: "(case parseItems Day1 ?items of
        Inl e \<Rightarrow> []
      | Inr cd \<Rightarrow> (case sortAggregateLimit 0 cd Day1 of Inl e \<Rightarrow> [] | Inr out \<Rightarrow> map timestamp out)) =
     ?ts"
    by code_simp
  have len: "length ?ts = 30" by (simp del: upto.simps)
  then have "?ts \<noteq> []" by (metis length_0_conv zero_neq_numeral)
  with run obtain cd out where cd: "parseItems Day1 ?items = Inr cd"
    and out: "sortAggregateLimit 0 cd Day1 = Inr out" and ts: "map timestamp out = ?ts"
    by (auto split: sum.splits)
  have "length out = 30" using len ts by (metis length_map)
  with parseJSONChartData_computed [OF statusIsOne_1 cd out] ts show ?thesis by blast
qed


section \<open>The output order\<close>

text \<open>
  Claim C2. Whatever the payload and the interval, the chart data that
  \<^verbatim>\<open>parseJSONChartData\<close> computes is in non-decreasing order of timestamp.
\<close>

theorem output_sorted:
  assumes "parseJSONChartData tz now random json ticker interval = ChartData out"
  shows "sorted (map timestamp out)"
proof -
  from assms obtain cd where "sortAggregateLimit tz cd interval = Inr out"
    by (auto dest: parseJSONChartData_ChartData)
  then show ?thesis by (rule sortAggregateLimit_sorted)
qed

theorem output_sorted_witness:
  "parseJSONChartData 0 1700000900000 (\<lambda>k. 1 / 2)
     (Response (JNum 1)
        [Arr [JNum 1700000400, JNum 12, JNum 50],
         Arr [JNum 1700000030, JNum 10, JNum 100],
         Arr [JNum 1700000000, JNum 12, JNum 50]]) ''HBL'' Min5 =
   ChartData
     [\<lparr>date = ''2023-11-14T22:13:20.000Z'', price = Fin 11, volume = 150,
        timestamp = 1700000000000\<rparr>,
      \<lparr>date = ''2023-11-14T22:20:00.000Z'', price = Fin 12, volume = 50,
        timestamp = 1700000400000\<rparr>] \<and>
   sorted (map timestamp
     [\<lparr>date = ''2023-11-14T22:13:20.000Z'', price = Fin 11, volume = 150,
        timestamp = 1700000000000\<rparr>,
      \<lparr>date = ''2023-11-14T22:20:00.000Z'', price = Fin 12, volume = 50,
        timestamp = 1700000400000\<rparr>])"
proof -
  have items: "parseItems Min5
        [Arr [JNum 1700000400, JNum 12, JNum 50],
         Arr [JNum 1700000030, JNum 10, JNum 100],
         Arr [JNum 1700000000, JNum 12, JNum 50]] =
     Inr [\<lparr>date = ''2023-11-14T22:20:00.000Z'', price = Fin 12, volume = 50,
            timestamp = 1700000400000\<rparr>,
          \<lparr>date = ''2023-11-14T22:13:50.000Z'', price = Fin 10, volume = 100,
            timestamp = 1700000030000\<rparr>,
          \<lparr>date = ''2023-11-14T22:13:20.000Z'', price = Fin 12, volume = 50,
            timestamp = 1700000000000\<rparr>]"
    by code_simp
  have lim: "sortAggregateLimit 0
         [\<lparr>date = ''2023-11-14T22:20:00.000Z'', price = Fin 12, volume = 50,
            timestamp = 1700000400000\<rparr>,
          \<lparr>date = ''2023-11-14T22:13:50.000Z'', price = Fin 10, volume = 100,
            timestamp = 1700000030000\<rparr>,
          \<lparr>date = ''2023-11-14T22:13:20.000Z'', price = Fin 12, volume = 50,
            timestamp = 1700000000000\<rparr>] Min5 =
     Inr [\<lparr>date = ''2023-11-14T22:13:20.000Z'', price = Fin 11, volume = 150,
            timestamp = 1700000000000\<rparr>,
          \<lparr>date = ''2023-11-14T22:20:00.000Z'', price = Fin 12, volume = 50,
            timestamp = 1700000400000\<rparr>]"
    by code_simp
  note run = parseJSONChartData_computed [OF statusIsOne_1 items lim,
      where now = 1700000900000 and random = "\<lambda>k. 1 / 2" and ticker = "''HBL''"]
  from output_sorted [OF run] run show ?thesis by simp
qed

section \<open>The 1-minute passthrough\<close>

text \<open>
  Claim C3 as stated fails: two points of one minute pass through the 1-minute guard
  as they are, while the bucketing of width 1 merges them into one point.
\<close>

theorem passthrough_counterexample:
  "aggregateDataByInterval 0
     [\<lparr>date = ''2023-11-14T22:13:20.000Z'', price = Fin (21 / 2), volume = 100, timestamp = 1700000000000\<rparr>,
      \<lparr>date = ''2023-11-14T22:13:50.000Z'', price = Fin (23 / 2), volume = 200, timestamp = 1700000030000\<rparr>]
     Min1 =
   Inr [\<lparr>date = ''2023-11-14T22:13:20.000Z'', price = Fin (21 / 2), volume = 100, timestamp = 1700000000000\<rparr>,
        \<lparr>date = ''2023-11-14T22:13:50.000Z'', price = Fin (23 / 2), volume = 200, timestamp = 1700000030000\<rparr>] \<and>
   aggregateBuckets 0
     [\<lparr>date = ''2023-11-14T22:13:20.000Z'', price = Fin (21 / 2), volume = 100, timestamp = 1700000000000\<rparr>,
      \<lparr>date = ''2023-11-14T22:13:50.000Z'', price = Fin (23 / 2), volume = 200, timestamp = 1700000030000\<rparr>]
     Min1 =
   Inr [\<lparr>date = ''2023-11-14T22:13:20.000Z'', price = Fin 11, volume = 300, timestamp = 1700000000000\<rparr>]"
  by code_simp

text \<open>
  Claim C3, amended. For every sequence of chart points that is sorted by timestamp,
  has no two points in one minute (their 1-minute keys exist and differ), and whose
  points carry the ISO string of their timestamp as date and a price already rounded
  to two decimals, aggregating at the 1-minute interval returns what the bucketing of
  width 1 returns.
\<close>

theorem passthrough_is_bucketing:
  fixes chartData :: "ChartDataPoint list"
  assumes "sorted (map timestamp chartData)"
    and "distinct (map (\<lambda>p. getIntervalKey tz (timestamp p) Min1 1) chartData)"
    and "\<forall>p \<in> set chartData. \<exists>k. getIntervalKey tz (timestamp p) Min1 1 = Inr k"
    and "\<forall>p \<in> set chartData. toISOString (newDate (Fin (timestamp p))) = Inr (date p)"
    and "\<forall>p \<in> set chartData. toFixed2 (price p) = price p"
  shows "aggregateDataByInterval tz chartData Min1 = aggregateBuckets tz chartData Min1"
proof -
  have "aggregateBuckets tz chartData Min1 = Inr chartData"
    by (rule aggregateBuckets_fixed) (use assms in auto)
  then show ?thesis by (simp add: aggregateDataByInterval_def)
qed

theorem passthrough_is_bucketing_witness:
  "sorted (map timestamp
     [\<lparr>date = ''2023-11-14T22:13:20.000Z'', price = Fin (21 / 2), volume = 100, timestamp = 1700000000000\<rparr>,
      \<lparr>date = ''2023-11-14T22:14:20.000Z'', price = Fin (23 / 2), volume = 200, timestamp = 1700000060000\<rparr>]) \<and>
   getIntervalKey 0 1700000000000 Min1 1 = Inr ''2023-11-14T22:13:00.000Z'' \<and>
   getIntervalKey 0 1700000060000 Min1 1 = Inr ''2023-11-14T22:14:00.000Z'' \<and>
   toISOString (newDate (Fin 1700000000000)) = Inr ''2023-11-14T22:13:20.000Z'' \<and>
   toISOString (newDate (Fin 1700000060000)) = Inr ''2023-11-14T22:14:20.000Z'' \<and>
   toFixed2 (Fin (21 / 2)) = Fin (21 / 2) \<and> toFixed2 (Fin (23 / 2)) = Fin (23 / 2) \<and>
   aggregateDataByInterval 0
     [\<lparr>date = ''2023-11-14T22:13:20.000Z'', price = Fin (21 / 2), volume = 100, timestamp = 1700000000000\<rparr>,
      \<lparr>date = ''2023-11-14T22:14:20.000Z'', price = Fin (23 / 2), volume = 200, timestamp = 1700000060000\<rparr>]
     Min1 =
   aggregateBuckets 0
     [\<lparr>date = ''2023-11-14T22:13:20.000Z'', price = Fin (21 / 2), volume = 100, timestamp = 1700000000000\<rparr>,
      \<lparr>date = ''2023-11-14T22:14:20.000Z'', price = Fin (23 / 2), volume = 200, timestamp = 1700000060000\<rparr>]
     Min1"
proof -
  have k1: "getIntervalKey 0 1700000000000 Min1 1 = Inr ''2023-11-14T22:13:00.000Z''" by code_simp
  have k2: "getIntervalKey 0 1700000060000 Min1 1 = Inr ''2023-11-14T22:14:00.000Z''" by code_simp
  have d1: "toISOString (newDate (Fin 1700000000000)) = Inr ''2023-11-14T22:13:20.000Z''" by code_simp
  have d2: "toISOString (newDate (Fin 1700000060000)) = Inr ''2023-11-14T22:14:20.000Z''" by code_simp
  have r1: "toFixed2 (Fin (21 / 2)) = Fin (21 / 2)" by code_simp
  have r2: "toFixed2 (Fin (23 / 2)) = Fin (23 / 2)" by code_simp
  have "aggregateDataByInterval 0
     [\<lparr>date = ''2023-11-14T22:13:20.000Z'', price = Fin (21 / 2), volume = 100, timestamp = 1700000000000\<rparr>,
      \<lparr>date = ''2023-11-14T22:14:20.000Z'', price = Fin (23 / 2), volume = 200, timestamp = 1700000060000\<rparr>]
     Min1 =
   aggregateBuckets 0
     [\<lparr>date = ''2023-11-14T22:13:20.000Z'', price = Fin (21 / 2), volume = 100, timestamp = 1700000000000\<rparr>,
      \<lparr>date = ''2023-11-14T22:14:20.000Z'', price = Fin (23 / 2), volume = 200, timestamp = 1700000060000\<rparr>]
     Min1"
    by (rule passthrough_is_bucketing) (simp_all add: k1 k2 d1 d2 r1 r2 del: toFixed2.simps)
  with k1 k2 d1 d2 r1 r2 show ?thesis by (simp del: toFixed2.simps)
qed

section \<open>Idempotence\<close>

text \<open>
  Claim C4. At every interval, sorting, aggregating and limiting a sequence that is
  itself the result of sorting, aggregating and limiting some sequence at that interval
  returns it unchanged: the same points with the same timestamps, prices, volumes and
  dates, in the same order. Prices are doubles: the mean of one price is that price,
  and \<^verbatim>\<open>parseFloat(x.toFixed(2))\<close> leaves alone every double it has produced
  (\<open>toFixed2_idem\<close>).
\<close>

theorem normalize_idempotent:
  assumes "sortAggregateLimit tz chartData interval = Inr out"
  shows "sortAggregateLimit tz out interval = Inr out"
proof -
  let ?n = "getDataLimitForInterval interval"
  from assms obtain agg
    where agg: "aggregateDataByInterval tz (sort_key timestamp chartData) interval = Inr agg"
      and out: "out = slice (- ?n) agg"
    by (auto simp: sortAggregateLimit_def split: sum.splits)
  have srt: "sorted (map timestamp out)" using assms by (rule sortAggregateLimit_sorted)
  have len: "int (length out) \<le> ?n" using assms by (rule sortAggregateLimit_length)
  have again: "aggregateDataByInterval tz out interval = Inr out"
  proof (cases "interval = Min1")
    case True
    then show ?thesis by (simp add: aggregateDataByInterval_def)
  next
    case False
    with agg have b: "aggregateBuckets tz (sort_key timestamp chartData) interval = Inr agg"
      by (simp add: aggregateDataByInterval_def)
    note o = aggregateBuckets_output [OF b]
    have sub: "set out \<subseteq> set agg" unfolding out by (rule set_slice)
    have "aggregateBuckets tz out interval = Inr out"
    proof (rule aggregateBuckets_fixed [OF srt])
      show "distinct (map (\<lambda>p. getIntervalKey tz (timestamp p) interval
              (getIntervalMinutes interval)) out)"
        unfolding out using o(2) by (rule distinct_map_slice)
      show "\<forall>p \<in> set out. \<exists>k. getIntervalKey tz (timestamp p) interval
              (getIntervalMinutes interval) = Inr k"
        using o(3) sub by blast
      show "\<forall>p \<in> set out. \<exists>s. toISOString (newDate (Fin (timestamp p))) = Inr s \<and>
              date p = (if interval = Day1 then splitT0 s else s)"
        using o(4) sub by blast
      show "\<forall>p \<in> set out. toFixed2 (price p) = price p"
        using o(5) sub by blast
    qed
    with False show ?thesis by (simp add: aggregateDataByInterval_def)
  qed
  show ?thesis
    using getDataLimit_pos [of interval] len
    by (simp add: sortAggregateLimit_def sort_key_id_if_sorted [OF srt] again slice_short)
qed

text \<open>Prices 12 and 10.01, the latter as the double nearest it, share a 5-minute
  bucket. Their mean is the double \<open>11.004999999999999\<close>, which is printed as \<open>11.00\<close>:
  the price of the point is 11, and a second pass leaves it alone.\<close>

theorem normalize_idempotent_witness:
  "sortAggregateLimit 0
     [\<lparr>date = ''2023-11-14T22:20:00.000Z'', price = Fin 12, volume = 70, timestamp = 1700000400000\<rparr>,
      \<lparr>date = ''2023-11-14T22:13:50.000Z'', price = Fin (5635129033747333 / 562949953421312), volume = 100, timestamp = 1700000030000\<rparr>,
      \<lparr>date = ''2023-11-14T22:13:20.000Z'', price = Fin 12, volume = 50, timestamp = 1700000000000\<rparr>]
     Min5 =
   Inr [\<lparr>date = ''2023-11-14T22:13:20.000Z'', price = Fin 11, volume = 150, timestamp = 1700000000000\<rparr>,
        \<lparr>date = ''2023-11-14T22:20:00.000Z'', price = Fin 12, volume = 70, timestamp = 1700000400000\<rparr>] \<and>
   sortAggregateLimit 0
     [\<lparr>date = ''2023-11-14T22:13:20.000Z'', price = Fin 11, volume = 150, timestamp = 1700000000000\<rparr>,
      \<lparr>date = ''2023-11-14T22:20:00.000Z'', price = Fin 12, volume = 70, timestamp = 1700000400000\<rparr>]
     Min5 =
   Inr [\<lparr>date = ''2023-11-14T22:13:20.000Z'', price = Fin 11, volume = 150, timestamp = 1700000000000\<rparr>,
        \<lparr>date = ''2023-11-14T22:20:00.000Z'', price = Fin 12, volume = 70, timestamp = 1700000400000\<rparr>]"
proof -
  have run: "sortAggregateLimit 0
     [\<lparr>date = ''2023-11-14T22:20:00.000Z'', price = Fin 12, volume = 70, timestamp = 1700000400000\<rparr>,
      \<lparr>date = ''2023-11-14T22:13:50.000Z'', price = Fin (5635129033747333 / 562949953421312), volume = 100, timestamp = 1700000030000\<rparr>,
      \<lparr>date = ''2023-11-14T22:13:20.000Z'', price = Fin 12, volume = 50, timestamp = 1700000000000\<rparr>]
     Min5 =
   Inr [\<lparr>date = ''2023-11-14T22:13:20.000Z'', price = Fin 11, volume = 150, timestamp = 1700000000000\<rparr>,
        \<lparr>date = ''2023-11-14T22:20:00.000Z'', price = Fin 12, volume = 70, timestamp = 1700000400000\<rparr>]"
    by code_simp
  from normalize_idempotent [OF run] run show ?thesis by (simp only: simp_thms)
qed

section \<open>Volume conservation\<close>

lemma sum_list_insort_key:
  fixes f :: "'a \<Rightarrow> int"
  shows "sum_list (map f (insort_key g x xs)) = f x + sum_list (map f xs)"
  by (induction xs) auto

lemma sum_list_sort_key:
  fixes f :: "'a \<Rightarrow> int"
  shows "sum_list (map f (sort_key g xs)) = sum_list (map f xs)"
  by (induction xs) (auto simp: sum_list_insort_key)

lemma distinct_map_sort_key: "distinct (map h (sort_key g xs)) = distinct (map h xs)"
  by (simp add: distinct_map)

text \<open>
  Claim C5. When \<^verbatim>\<open>aggregateDataByInterval\<close> returns, then at the 1-minute interval the
  points are returned as they are, and at every other interval: the volume of each
  output point is the sum of the volumes of exactly the input points that have its
  bucket key; no two output points have the same key, so no input point is counted
  twice; the keys of the output are the keys of the input, so no input point is left
  out; and the volumes of the output add up to the volumes of the input.
\<close>

theorem volume_conservation:
  assumes "aggregateDataByInterval tz chartData interval = Inr out"
  shows "if interval = Min1 then out = chartData
         else
           (\<forall>q \<in> set out. volume q = sum_list (map volume
              (filter (\<lambda>p. getIntervalKey tz (timestamp p) interval (getIntervalMinutes interval) =
                            getIntervalKey tz (timestamp q) interval (getIntervalMinutes interval))
                 chartData))) \<and>
           distinct (map (\<lambda>q. getIntervalKey tz (timestamp q) interval (getIntervalMinutes interval)) out) \<and>
           (\<lambda>q. getIntervalKey tz (timestamp q) interval (getIntervalMinutes interval)) ` set out =
           (\<lambda>p. getIntervalKey tz (timestamp p) interval (getIntervalMinutes interval)) ` set chartData \<and>
           sum_list (map volume out) = sum_list (map volume chartData)"
proof (cases "interval = Min1")
  case True
  with assms show ?thesis by (simp add: aggregateDataByInterval_def)
next
  case False
  define K where "K = (\<lambda>q::ChartDataPoint. getIntervalKey tz (timestamp q) interval (getIntervalMinutes interval))"
  from assms False have "aggregateBuckets tz chartData interval = Inr out"
    by (simp add: aggregateDataByInterval_def)
  then obtain m agg where g: "groupData tz interval (getIntervalMinutes interval) [] chartData = Inr m"
    and e: "mapE (toChartPoint interval) (map snd m) = Inr agg"
    and out: "out = sort_key timestamp agg"
    by (auto dest: aggregateBuckets_Inr)
  note ap = aggregated_points [OF g e]
  have keys: "map K agg = map (\<lambda>kb. Inr (fst kb)) m" using ap(1) by (simp add: K_def)
  have vols: "map volume agg =
      map (\<lambda>kb. sum_list (map volume (filter (\<lambda>p. K p = Inr (fst kb)) chartData))) m"
    using ap(2) by (simp add: K_def)
  have len: "length agg = length m" using keys by (metis length_map)
  have defined: "\<forall>p \<in> set chartData. \<exists>k. K p = Inr k"
    using groupData_keys_defined [OF g] by (simp add: K_def)
  have 1: "volume q = sum_list (map volume (filter (\<lambda>p. K p = K q) chartData))"
    if "q \<in> set agg" for q
  proof -
    from that obtain j where j: "j < length agg" and q: "q = agg ! j"
      by (auto simp: in_set_conv_nth)
    have "K q = Inr (fst (m ! j))"
      using arg_cong [OF keys, of "\<lambda>xs. xs ! j"] j q len by simp
    moreover have "volume q = sum_list (map volume (filter (\<lambda>p. K p = Inr (fst (m ! j))) chartData))"
      using arg_cong [OF vols, of "\<lambda>xs. xs ! j"] j q len by simp
    ultimately show ?thesis by simp
  qed
  have "distinct (map (\<lambda>kb. (Inr (fst kb) :: error + string)) m)"
    using ap(3) by (simp add: distinct_map inj_on_def)
  then have 2: "distinct (map K agg)" using keys by simp
  have "K ` set agg = set (map K agg)" by simp
  also have "\<dots> = Inr ` fst ` set m" by (simp only: keys) auto
  also have "\<dots> = K ` set chartData"
    unfolding ap(4) using defined by (force simp: K_def image_iff)
  finally have 3: "K ` set agg = K ` set chartData" .
  have 4: "sum_list (map volume agg) = sum_list (map volume chartData)" by (rule ap(5))
  from 1 2 3 4 False show ?thesis
    unfolding out K_def
    by (simp add: sum_list_sort_key distinct_map_sort_key)
qed

theorem volume_conservation_witness:
  "aggregateDataByInterval 0
     [\<lparr>date = ''2023-11-14T22:13:20.000Z'', price = Fin 12, volume = 50, timestamp = 1700000000000\<rparr>,
      \<lparr>date = ''2023-11-14T22:13:50.000Z'', price = Fin 10, volume = 100, timestamp = 1700000030000\<rparr>,
      \<lparr>date = ''2023-11-14T22:20:00.000Z'', price = Fin 12, volume = 70, timestamp = 1700000400000\<rparr>]
     Min5 =
   Inr [\<lparr>date = ''2023-11-14T22:13:20.000Z'', price = Fin 11, volume = 150, timestamp = 1700000000000\<rparr>,
        \<lparr>date = ''2023-11-14T22:20:00.000Z'', price = Fin 12, volume = 70, timestamp = 1700000400000\<rparr>] \<and>
   sum_list (map volume
       [\<lparr>date = ''2023-11-14T22:13:20.000Z'', price = Fin 11, volume = 150, timestamp = 1700000000000\<rparr>,
        \<lparr>date = ''2023-11-14T22:20:00.000Z'', price = Fin 12, volume = 70, timestamp = 1700000400000\<rparr>]) =
   sum_list (map volume
     [\<lparr>date = ''2023-11-14T22:13:20.000Z'', price = Fin 12, volume = 50, timestamp = 1700000000000\<rparr>,
      \<lparr>date = ''2023-11-14T22:13:50.000Z'', price = Fin 10, volume = 100, timestamp = 1700000030000\<rparr>,
      \<lparr>date = ''2023-11-14T22:20:00.000Z'', price = Fin 12, volume = 70, timestamp = 1700000400000\<rparr>])"
proof -
  have run: "aggregateDataByInterval 0
     [\<lparr>date = ''2023-11-14T22:13:20.000Z'', price = Fin 12, volume = 50, timestamp = 1700000000000\<rparr>,
      \<lparr>date = ''2023-11-14T22:13:50.000Z'', price = Fin 10, volume = 100, timestamp = 1700000030000\<rparr>,
      \<lparr>date = ''2023-11-14T22:20:00.000Z'', price = Fin 12, volume = 70, timestamp = 1700000400000\<rparr>]
     Min5 =
   Inr [\<lparr>date = ''2023-11-14T22:13:20.000Z'', price = Fin 11, volume = 150, timestamp = 1700000000000\<rparr>,
        \<lparr>date = ''2023-11-14T22:20:00.000Z'', price = Fin 12, volume = 70, timestamp = 1700000400000\<rparr>]"
    by code_simp
  from volume_conservation [OF run] run show ?thesis by simp
qed

section \<open>Daily bucketing of two points\<close>

lemma parseInt_100: "parseInt (JNum 100) = Some 100" by code_simp
lemma parseInt_50: "parseInt (JNum 50) = Some 50" by code_simp
lemma toFixed2_11: "toFixed2 (Fin 11) = Fin 11" by code_simp
lemma roundDouble_10: "roundDouble 10 = Fin 10" by code_simp
lemma roundDouble_12: "roundDouble 12 = Fin 12" by code_simp
lemma roundDouble_22: "roundDouble 22 = Fin 22" by code_simp
lemma roundDouble_11: "roundDouble 11 = Fin 11" by code_simp

lemma toChartPoint_Day1:
  assumes "\<bar>n\<bar> \<le> maxTime"
  shows "toChartPoint Day1 \<lparr>key = k, prices = ps, volumes = vs, ivTimestamp = of_int n\<rparr> =
    Inr \<lparr>date = dateString n,
         price = toFixed2 (js_div (foldl js_add (Fin 0) ps) (Fin (of_nat (length ps)))),
         volume = foldl (+) 0 vs, timestamp = of_int n\<rparr>"
  using newDate_of_int [OF assms]
  by (simp add: toChartPoint_def Let_def toISOString_def splitT0_dateString)

lemma two_points_one_day:
  assumes k1: "\<bar>a\<bar> \<le> maxTime" and k2: "\<bar>b\<bar> \<le> maxTime" and ab: "a < b"
    and same: "dateString b = dateString a"
  shows "aggregateBuckets tz
      [\<lparr>date = d1, price = Fin 10, volume = 100, timestamp = of_int a\<rparr>,
       \<lparr>date = d2, price = Fin 12, volume = 50, timestamp = of_int b\<rparr>] Day1 =
    Inr [\<lparr>date = dateString a, price = Fin 11, volume = 150, timestamp = of_int a\<rparr>]"
  using ab
  by (simp add: aggregateBuckets_def getIntervalKey_Day1 [OF k1] getIntervalKey_Day1 [OF k2]
      same addPoint_def toChartPoint_Day1 [OF k1] toFixed2_11 roundDouble_10 roundDouble_22
      roundDouble_11 del: toFixed2.simps)

lemma slice_single: "slice (- 30) [x] = [x]"
  by (simp add: slice_def)

text \<open>
  Claim C6. Two raw points whose timestamps (in seconds) lie twelve hours apart in one
  UTC day, with prices 10 and 12 and volumes 100 and 50, in either order of arrival,
  are normalized at the 1-day interval to exactly one point: price 11, volume 150, the
  earlier timestamp in milliseconds, and the calendar date of that day, which is the
  date of both instants.
\<close>

theorem daily_bucket_example:
  assumes same: "t mod 86400 < 43200"
    and lo: "- 8640000000000 \<le> t" and hi: "t + 43200 \<le> 8640000000000"
  shows "parseJSONChartData tz now random
           (Response (JNum 1)
              [Arr [JNum (of_int t), JNum 10, JNum 100],
               Arr [JNum (of_int (t + 43200)), JNum 12, JNum 50]]) ticker Day1 =
         ChartData
           [\<lparr>date = dateString (t * 1000), price = Fin 11, volume = 150,
              timestamp = of_int (t * 1000)\<rparr>] \<and>
         parseJSONChartData tz now random
           (Response (JNum 1)
              [Arr [JNum (of_int (t + 43200)), JNum 12, JNum 50],
               Arr [JNum (of_int t), JNum 10, JNum 100]]) ticker Day1 =
         ChartData
           [\<lparr>date = dateString (t * 1000), price = Fin 11, volume = 150,
              timestamp = of_int (t * 1000)\<rparr>] \<and>
         dateString ((t + 43200) * 1000) = dateString (t * 1000)"
proof -
  let ?a = "t * 1000" and ?b = "(t + 43200) * 1000"
  have a: "\<bar>?a\<bar> \<le> maxTime" and b: "\<bar>?b\<bar> \<le> maxTime" and ab: "?a < ?b"
    using lo hi by (simp_all add: maxTime_def)
  have ab': "(of_int ?a :: rat) < of_int ?b" "\<not> (of_int ?b :: rat) \<le> of_int ?a"
    using ab by (simp_all only: of_int_less_iff of_int_le_iff not_le)
  note day = same_day [OF same]
  have p1: "parseItem Day1 (Arr [JNum (of_int t), JNum 10, JNum 100]) =
      Inr (Some \<lparr>date = dateString ?a, price = Fin 10, volume = 100, timestamp = of_int ?a\<rparr>)"
    by (simp only: parseItem_Day1_num [OF a] parseInt_100 option.case roundDouble_10)
      (simp add: orZero_def)
  have p2: "parseItem Day1 (Arr [JNum (of_int (t + 43200)), JNum 12, JNum 50]) =
      Inr (Some \<lparr>date = dateString ?b, price = Fin 12, volume = 50, timestamp = of_int ?b\<rparr>)"
    by (simp only: parseItem_Day1_num [OF b] parseInt_50 option.case roundDouble_12)
      (simp add: orZero_def)
  have agg: "aggregateBuckets tz
      [\<lparr>date = dateString ?a, price = Fin 10, volume = 100, timestamp = of_int ?a\<rparr>,
       \<lparr>date = dateString ?b, price = Fin 12, volume = 50, timestamp = of_int ?b\<rparr>] Day1 =
    Inr [\<lparr>date = dateString ?a, price = Fin 11, volume = 150, timestamp = of_int ?a\<rparr>]"
    by (rule two_points_one_day [OF a b ab day])
  have s1: "sort_key timestamp
      [\<lparr>date = dateString ?a, price = Fin 10, volume = 100, timestamp = of_int ?a\<rparr>,
       \<lparr>date = dateString ?b, price = Fin 12, volume = 50, timestamp = of_int ?b\<rparr>] =
      [\<lparr>date = dateString ?a, price = Fin 10, volume = 100, timestamp = of_int ?a\<rparr>,
       \<lparr>date = dateString ?b, price = Fin 12, volume = 50, timestamp = of_int ?b\<rparr>]"
    using ab' by simp
  have s2: "sort_key timestamp
      [\<lparr>date = dateString ?b, price = Fin 12, volume = 50, timestamp = of_int ?b\<rparr>,
       \<lparr>date = dateString ?a, price = Fin 10, volume = 100, timestamp = of_int ?a\<rparr>] =
      [\<lparr>date = dateString ?a, price = Fin 10, volume = 100, timestamp = of_int ?a\<rparr>,
       \<lparr>date = dateString ?b, price = Fin 12, volume = 50, timestamp = of_int ?b\<rparr>]"
    using ab' by simp
  have i1: "parseItems Day1
      [Arr [JNum (of_int t), JNum 10, JNum 100],
       Arr [JNum (of_int (t + 43200)), JNum 12, JNum 50]] =
      Inr [\<lparr>date = dateString ?a, price = Fin 10, volume = 100, timestamp = of_int ?a\<rparr>,
           \<lparr>date = dateString ?b, price = Fin 12, volume = 50, timestamp = of_int ?b\<rparr>]"
    by (simp only: parseItems.simps p1 p2 sum.case option.case append.simps)
  have i2: "parseItems Day1
      [Arr [JNum (of_int (t + 43200)), JNum 12, JNum 50],
       Arr [JNum (of_int t), JNum 10, JNum 100]] =
      Inr [\<lparr>date = dateString ?b, price = Fin 12, volume = 50, timestamp = of_int ?b\<rparr>,
           \<lparr>date = dateString ?a, price = Fin 10, volume = 100, timestamp = of_int ?a\<rparr>]"
    by (simp only: parseItems.simps p1 p2 sum.case option.case append.simps)
  have lim: "sortAggregateLimit tz
      [\<lparr>date = dateString ?a, price = Fin 10, volume = 100, timestamp = of_int ?a\<rparr>,
       \<lparr>date = dateString ?b, price = Fin 12, volume = 50, timestamp = of_int ?b\<rparr>] Day1 =
      Inr [\<lparr>date = dateString ?a, price = Fin 11, volume = 150, timestamp = of_int ?a\<rparr>]"
    by (simp only: sortAggregateLimit_def s1 aggregateDataByInterval_def
        ChartTimeInterval.simps if_False agg sum.case getDataLimitForInterval.simps slice_single)
  have lim': "sortAggregateLimit tz
      [\<lparr>date = dateString ?b, price = Fin 12, volume = 50, timestamp = of_int ?b\<rparr>,
       \<lparr>date = dateString ?a, price = Fin 10, volume = 100, timestamp = of_int ?a\<rparr>] Day1 =
      Inr [\<lparr>date = dateString ?a, price = Fin 11, volume = 150, timestamp = of_int ?a\<rparr>]"
    by (simp only: sortAggregateLimit_def s2 aggregateDataByInterval_def
        ChartTimeInterval.simps if_False agg sum.case getDataLimitForInterval.simps slice_single)
  have "parseJSONChartData tz now random
           (Response (JNum 1)
              [Arr [JNum (of_int t), JNum 10, JNum 100],
               Arr [JNum (of_int (t + 43200)), JNum 12, JNum 50]]) ticker Day1 =
         ChartData [\<lparr>date = dateString ?a, price = Fin 11, volume = 150, timestamp = of_int ?a\<rparr>]"
    by (rule parseJSONChartData_computed [OF statusIsOne_1 i1 lim])
  moreover have "parseJSONChartData tz now random
           (Response (JNum 1)
              [Arr [JNum (of_int (t + 43200)), JNum 12, JNum 50],
               Arr [JNum (of_int t), JNum 10, JNum 100]]) ticker Day1 =
         ChartData [\<lparr>date = dateString ?a, price = Fin 11, volume = 150, timestamp = of_int ?a\<rparr>]"
    by (rule parseJSONChartData_computed [OF statusIsOne_1 i2 lim'])
  ultimately show ?thesis using day by (simp only: simp_thms)
qed

theorem daily_bucket_example_witness:
  "(1700006400::int) mod 86400 < 43200 \<and> - 8640000000000 \<le> (1700006400::int) \<and>
   (1700006400::int) + 43200 \<le> 8640000000000 \<and>
   parseJSONChartData 0 1700086400000 (\<lambda>k. 1 / 2)
     (Response (JNum 1)
        [Arr [JNum 1700006400, JNum 10, JNum 100], Arr [JNum 1700049600, JNum 12, JNum 50]])
     ''HBL'' Day1 =
   ChartData [\<lparr>date = ''2023-11-15'', price = Fin 11, volume = 150, timestamp = 1700006400000\<rparr>]"
proof -
  have d: "dateString (1700006400 * 1000) = ''2023-11-15''" by code_simp
  show ?thesis
    using daily_bucket_example [where t = 1700006400 and tz = 0 and now = 1700086400000
        and random = "\<lambda>k. 1 / 2" and ticker = "''HBL''"] d
    by simp
qed

section \<open>Field coercion\<close>

text \<open>
  Claim C7 as stated fails: the volume of a parsed point is whatever integer
  \<^verbatim>\<open>parseInt\<close> reads, and \<^verbatim>\<open>parseInt("-5")\<close> is \<open>-5\<close>.
\<close>

theorem negative_volume_counterexample:
  "parseItem Min1 (Arr [JNum 1700000000, JStr ''10.5'', JStr ''-5'']) =
     Inr (Some \<lparr>date = ''2023-11-14T22:13:20.000Z'', price = Fin (21 / 2), volume = - 5,
                 timestamp = 1700000000000\<rparr>) \<and>
   volume \<lparr>date = ''2023-11-14T22:13:20.000Z'', price = Fin (21 / 2), volume = - 5,
           timestamp = 1700000000000\<rparr> < 0"
  by code_simp

text \<open>
  Claim C7, amended. For every tuple of at least three fields that yields a point, the
  point's price is \<^verbatim>\<open>parseFloat\<close> of the second field, with 0 in place of \<open>NaN\<close>, and
  its volume is the integer \<^verbatim>\<open>parseInt\<close> reads at the head of the third field,
  whatever its sign, with 0 when \<^verbatim>\<open>parseInt\<close> reads none.
\<close>

theorem field_coercion:
  assumes "parseItem interval (Arr (f0 # f1 # f2 # others)) = Inr (Some p)"
  shows "price p = (if parseFloat f1 = NaN then Fin 0 else parseFloat f1) \<and>
         volume p = (case parseInt f2 of None \<Rightarrow> 0 | Some n \<Rightarrow> n)"
  using assms by (auto simp: Let_def orZero_def split: sum.splits)

theorem field_coercion_witness:
  "parseItem Min5 (Arr [JNum 1700000000, JStr ''abc'', JStr ''12abc'', JNull]) =
     Inr (Some \<lparr>date = ''2023-11-14T22:13:20.000Z'', price = Fin 0, volume = 12,
                 timestamp = 1700000000000\<rparr>) \<and>
   parseFloat (JStr ''abc'') = NaN \<and> parseInt (JStr ''12abc'') = Some 12 \<and>
   price \<lparr>date = ''2023-11-14T22:13:20.000Z'', price = Fin 0, volume = 12,
           timestamp = 1700000000000\<rparr> = Fin 0 \<and>
   volume \<lparr>date = ''2023-11-14T22:13:20.000Z'', price = Fin 0, volume = 12,
           timestamp = 1700000000000\<rparr> = 12"
proof -
  have run: "parseItem Min5 (Arr (JNum 1700000000 # JStr ''abc'' # JStr ''12abc'' # [JNull])) =
     Inr (Some \<lparr>date = ''2023-11-14T22:13:20.000Z'', price = Fin 0, volume = 12,
                 timestamp = 1700000000000\<rparr>)"
    by code_simp
  have f: "parseFloat (JStr ''abc'') = NaN" by code_simp
  have i: "parseInt (JStr ''12abc'') = Some 12" by code_simp
  from field_coercion [OF run] run f i show ?thesis
    by (simp del: parseItem.simps parseFloat.simps parseInt.simps)
qed

section \<open>Rows of the snapshot\<close>

text \<open>
  Claim C8 fails on the code for rows of exactly ten cells: the guard
  \<^verbatim>\<open>cells.length >= 10\<close> lets the row in, \<^verbatim>\<open>cells[10]\<close> is read for the volume, the
  \<^verbatim>\<open>TypeError\<close> is caught, and the row yields no record although its first cell has
  both elements.
\<close>

theorem ten_cell_row_skipped:
  "parseHTMLData
     [[\<lparr>strong = Some ''HBL'', anchor = Some (Some ''Habib Bank Limited''),
         textContent = ''HBL'', dataOrder = None\<rparr>,
       \<lparr>strong = None, anchor = None, textContent = [], dataOrder = None\<rparr>,
       \<lparr>strong = None, anchor = None, textContent = ''BANKS'', dataOrder = None\<rparr>,
       \<lparr>strong = None, anchor = None, textContent = ''100.00'', dataOrder = Some ''100''\<rparr>,
       \<lparr>strong = None, anchor = None, textContent = ''101.00'', dataOrder = Some ''101''\<rparr>,
       \<lparr>strong = None, anchor = None, textContent = ''103.00'', dataOrder = Some ''103''\<rparr>,
       \<lparr>strong = None, anchor = None, textContent = ''99.00'', dataOrder = Some ''99''\<rparr>,
       \<lparr>strong = None, anchor = None, textContent = ''102.00'', dataOrder = Some ''102''\<rparr>,
       \<lparr>strong = None, anchor = None, textContent = ''2.00'', dataOrder = Some ''2''\<rparr>,
       \<lparr>strong = None, anchor = None, textContent = ''2.00%'', dataOrder = Some ''2''\<rparr>]] = []"
  by (simp add: parseHTMLData_def parseRow_def rowData_def)

text \<open>How every row fares: ten cells or fewer, or a first cell without the two elements,
  give no record; eleven cells or more and both elements give one, positive when the
  change is at least 0.\<close>

lemma parseRow_ten: "length cells = 10 \<Longrightarrow> parseRow cells = None"
  by (auto simp: parseRow_def rowData_def split: option.splits sum.splits)

lemma parseRow_fewer: "length cells < 10 \<Longrightarrow> parseRow cells = None"
  by (simp add: parseRow_def)

lemma parseRow_no_element:
  "strong (cells ! 0) = None \<or> anchor (cells ! 0) = None \<Longrightarrow> parseRow cells = None"
  by (auto simp: parseRow_def rowData_def split: option.splits)

lemma parseRow_eleven:
  "11 \<le> length cells \<Longrightarrow> strong (cells ! 0) = Some s \<Longrightarrow> anchor (cells ! 0) = Some a \<Longrightarrow>
   \<exists>st. parseRow cells = Some st \<and> isPositive st = js_ge (change st) (Fin 0) \<and>
     change st = parseFloat (JStr (orString0 (dataOrder (cells ! 8))))"
  by (simp add: parseRow_def rowData_def Let_def)

section \<open>Structural filtering\<close>

lemma parseItem_short: "length fs < 3 \<Longrightarrow> parseItem i (Arr fs) = Inr None"
  by (cases "(i, Arr fs)" rule: parseItem.cases) auto

lemma parseItems_append:
  "parseItems i (xs @ ys) =
     (case parseItems i xs of
        Inl e \<Rightarrow> Inl e
      | Inr a \<Rightarrow> (case parseItems i ys of Inl e \<Rightarrow> Inl e | Inr b \<Rightarrow> Inr (a @ b)))"
  by (induction xs) (auto split: sum.splits)

lemma parseItems_skip:
  "parseItem i x = Inr None \<Longrightarrow> parseItems i (xs @ x # ys) = parseItems i (xs @ ys)"
  by (simp add: parseItems_append split: sum.splits)

text \<open>
  Claim C9. A tuple of fewer than three fields pushes no point, and the result of
  \<^verbatim>\<open>parseJSONChartData\<close> on a payload that holds it, anywhere among the items, is the
  result on the payload without it. No exception is involved: the loop body does
  nothing for such a tuple.
\<close>

theorem short_tuple_dropped:
  assumes "length fs < 3"
  shows "parseItem interval (Arr fs) = Inr None \<and>
         parseJSONChartData tz now random (Response st (xs @ Arr fs # ys)) ticker interval =
         parseJSONChartData tz now random (Response st (xs @ ys)) ticker interval"
  using assms by (simp add: parseItem_short parseItems_skip parseJSONChartData_def Let_def)

theorem short_tuple_dropped_witness:
  "length [JNum 1700000060, JStr ''10.6''] < 3 \<and>
   parseItem Min1 (Arr [JNum 1700000060, JStr ''10.6'']) = Inr None \<and>
   parseJSONChartData 0 1700000900000 (\<lambda>k. 1 / 2)
     (Response (JNum 1)
        [Arr [JNum 1700000000, JStr ''10.5'', JStr ''100''], Arr [JNum 1700000060, JStr ''10.6'']])
     ''HBL'' Min1 =
   parseJSONChartData 0 1700000900000 (\<lambda>k. 1 / 2)
     (Response (JNum 1) [Arr [JNum 1700000000, JStr ''10.5'', JStr ''100'']]) ''HBL'' Min1"
  using short_tuple_dropped [where fs = "[JNum 1700000060, JStr ''10.6'']" and interval = Min1
      and tz = 0 and now = 1700000900000 and random = "\<lambda>k. 1 / 2" and st = "JNum 1"
      and xs = "[Arr [JNum 1700000000, JStr ''10.5'', JStr ''100'']]" and ys = "[]"
      and ticker = "''HBL''"]
  by simp

section \<open>The market summary\<close>

lemma js_tetrachotomy:
  "(js_gt x (Fin 0) \<and> \<not> js_lt x (Fin 0) \<and> x \<noteq> Fin 0 \<and> x \<noteq> NaN) \<or>
   (\<not> js_gt x (Fin 0) \<and> js_lt x (Fin 0) \<and> x \<noteq> Fin 0 \<and> x \<noteq> NaN) \<or>
   (\<not> js_gt x (Fin 0) \<and> \<not> js_lt x (Fin 0) \<and> x = Fin 0) \<or>
   (\<not> js_gt x (Fin 0) \<and> \<not> js_lt x (Fin 0) \<and> x = NaN)"
  by (cases x) (auto simp: js_gt_def)

lemma partition_count:
  "length (filter (\<lambda>stock. js_gt (change stock) (Fin 0)) stocks) +
   length (filter (\<lambda>stock. js_lt (change stock) (Fin 0)) stocks) +
   length (filter (\<lambda>stock. change stock = Fin 0) stocks) +
   length (filter (\<lambda>stock. change stock = NaN) stocks) = length stocks"
proof (induction stocks)
  case Nil
  then show ?case by simp
next
  case (Cons s stocks)
  from js_tetrachotomy [of "change s"] Cons show ?case by auto
qed

lemma foldl_map: "foldl (\<lambda>a x. f a (g x)) a xs = foldl f a (map g xs)"
  by (induction xs arbitrary: a) auto

text \<open>Volumes that are whole numbers, none negative, with a total of at most \<open>2^53\<close>, are
  added without rounding.\<close>

lemma total_volume_exact:
  assumes "\<forall>s \<in> set stocks. \<exists>v. 0 \<le> v \<and> stockVolume s = Fin (of_int v)"
    and "0 \<le> a" and "a + sum_list (map (\<lambda>s. \<lfloor>finValue (stockVolume s)\<rfloor>) stocks) \<le> 2 ^ 53"
  shows "foldl (\<lambda>sum stock. js_add sum (stockVolume stock)) (Fin (of_int a)) stocks =
         Fin (of_int (a + sum_list (map (\<lambda>s. \<lfloor>finValue (stockVolume s)\<rfloor>) stocks)))"
  using assms
proof (induction stocks arbitrary: a)
  case Nil
  then show ?case by simp
next
  case (Cons s stocks)
  then obtain v where v: "0 \<le> v" "stockVolume s = Fin (of_int v)" by auto
  have rest: "0 \<le> sum_list (map (\<lambda>s. \<lfloor>finValue (stockVolume s)\<rfloor>) stocks)"
    using Cons.prems(1) by (intro sum_list_nonneg) (auto simp: finValue_def)
  have tot: "a + v + sum_list (map (\<lambda>s. \<lfloor>finValue (stockVolume s)\<rfloor>) stocks) \<le> 2 ^ 53"
    using Cons.prems(3) v by (simp add: finValue_def)
  then have "\<bar>a + v\<bar> \<le> 2 ^ 53" using rest v(1) Cons.prems(2) by simp
  then have "roundDouble (of_int (a + v)) = Fin (of_int (a + v))" by (rule roundDouble_of_int)
  then have step: "js_add (Fin (of_int a)) (Fin (of_int v)) = Fin (of_int (a + v))"
    by simp
  have "foldl (\<lambda>sum stock. js_add sum (stockVolume stock)) (Fin (of_int a)) (s # stocks) =
        foldl (\<lambda>sum stock. js_add sum (stockVolume stock)) (Fin (of_int (a + v))) stocks"
    by (simp only: foldl_Cons v(2) step)
  also have "\<dots> = Fin (of_int (a + v + sum_list (map (\<lambda>s. \<lfloor>finValue (stockVolume s)\<rfloor>) stocks)))"
    by (rule Cons.IH) (use Cons.prems(1,2) v(1) tot in auto)
  also have "a + v + sum_list (map (\<lambda>s. \<lfloor>finValue (stockVolume s)\<rfloor>) stocks) =
             a + sum_list (map (\<lambda>s. \<lfloor>finValue (stockVolume s)\<rfloor>) (s # stocks))"
    by (simp add: v(2) finValue_def)
  finally show ?case .
qed

text \<open>
  Claim C10 as stated fails: a record whose change is \<open>NaN\<close> is counted in none of the
  three groups, so the three counts fall short of \<open>totalStocks\<close>.
\<close>

theorem summary_partition_counterexample:
  "totalStocks (calculateMarketSummary
     [\<lparr>symbol = ''HBL'', company = ''Habib Bank Limited'', sector = ''BANKS'', ldcp = Fin 100,
        openPrice = Fin 101, high = Fin 103, low = Fin 99, current = Fin 102, change = NaN,
        changePercent = Fin 2, stockVolume = Fin 5000, isPositive = False\<rparr>]) = 1 \<and>
   gainers (calculateMarketSummary
     [\<lparr>symbol = ''HBL'', company = ''Habib Bank Limited'', sector = ''BANKS'', ldcp = Fin 100,
        openPrice = Fin 101, high = Fin 103, low = Fin 99, current = Fin 102, change = NaN,
        changePercent = Fin 2, stockVolume = Fin 5000, isPositive = False\<rparr>]) +
   losers (calculateMarketSummary
     [\<lparr>symbol = ''HBL'', company = ''Habib Bank Limited'', sector = ''BANKS'', ldcp = Fin 100,
        openPrice = Fin 101, high = Fin 103, low = Fin 99, current = Fin 102, change = NaN,
        changePercent = Fin 2, stockVolume = Fin 5000, isPositive = False\<rparr>]) +
   unchanged (calculateMarketSummary
     [\<lparr>symbol = ''HBL'', company = ''Habib Bank Limited'', sector = ''BANKS'', ldcp = Fin 100,
        openPrice = Fin 101, high = Fin 103, low = Fin 99, current = Fin 102, change = NaN,
        changePercent = Fin 2, stockVolume = Fin 5000, isPositive = False\<rparr>]) = 0"
  by (simp add: calculateMarketSummary_def js_gt_def js_seq_def)

text \<open>Such a record is what \<^verbatim>\<open>parseHTMLData\<close> makes of a row whose change cell has a
  \<^verbatim>\<open>data-order\<close> that is not a number.\<close>

lemma nan_change_from_row:
  "map change (parseHTMLData
     [[\<lparr>strong = Some ''HBL'', anchor = Some (Some ''Habib Bank Limited''),
         textContent = ''HBL'', dataOrder = None\<rparr>,
       \<lparr>strong = None, anchor = None, textContent = [], dataOrder = None\<rparr>,
       \<lparr>strong = None, anchor = None, textContent = ''BANKS'', dataOrder = None\<rparr>,
       \<lparr>strong = None, anchor = None, textContent = ''100.00'', dataOrder = Some ''100''\<rparr>,
       \<lparr>strong = None, anchor = None, textContent = ''101.00'', dataOrder = Some ''101''\<rparr>,
       \<lparr>strong = None, anchor = None, textContent = ''103.00'', dataOrder = Some ''103''\<rparr>,
       \<lparr>strong = None, anchor = None, textContent = ''99.00'', dataOrder = Some ''99''\<rparr>,
       \<lparr>strong = None, anchor = None, textContent = ''102.00'', dataOrder = Some ''102''\<rparr>,
       \<lparr>strong = None, anchor = None, textContent = ''N/A'', dataOrder = Some ''N/A''\<rparr>,
       \<lparr>strong = None, anchor = None, textContent = ''2.00%'', dataOrder = Some ''2''\<rparr>,
       \<lparr>strong = None, anchor = None, textContent = ''5,000'', dataOrder = Some ''5000''\<rparr>]]) =
   [NaN]"
  by code_simp

text \<open>
  Claim C10, amended. For every list of stock records, the summary's gainers, losers
  and unchanged count the records of positive, negative and zero change; totalStocks
  is the length of the list; the three counts and the number of records whose change
  is \<open>NaN\<close> add up to totalStocks; and totalVolume is the sum of the volumes, added
  to 0 in the order of the list.
\<close>

theorem summary_partition:
  "gainers (calculateMarketSummary stocks) = length (filter (\<lambda>s. js_gt (change s) (Fin 0)) stocks) \<and>
   losers (calculateMarketSummary stocks) = length (filter (\<lambda>s. js_lt (change s) (Fin 0)) stocks) \<and>
   unchanged (calculateMarketSummary stocks) = length (filter (\<lambda>s. change s = Fin 0) stocks) \<and>
   totalStocks (calculateMarketSummary stocks) = length stocks \<and>
   gainers (calculateMarketSummary stocks) + losers (calculateMarketSummary stocks) +
     unchanged (calculateMarketSummary stocks) + length (filter (\<lambda>s. change s = NaN) stocks) =
     totalStocks (calculateMarketSummary stocks) \<and>
   totalVolume (calculateMarketSummary stocks) = foldl js_add (Fin 0) (map stockVolume stocks)"
proof -
  have u: "filter (\<lambda>stock. js_seq (change stock) (Fin 0)) stocks =
           filter (\<lambda>s. change s = Fin 0) stocks"
    by (rule filter_cong) (auto simp: js_seq_def)
  show ?thesis
    using partition_count [of stocks]
    by (simp add: calculateMarketSummary_def u foldl_map)
qed

end
